theory Spec2Isabelle
  imports Complex_Main "HOL-Library.Finite_Map"
begin

section \<open>The TTL cache (lib/cache: class SimpleCache)\<close>

text \<open>
  \<^verbatim>\<open>interface CacheEntry<T> { data: T; timestamp: number; expiry: number; }\<close>
  Times are the integer milliseconds of \<^verbatim>\<open>Date.now()\<close>; the reading of the clock is an
  explicit argument \<open>now\<close> of every operation that calls it.
\<close>

record 'a cacheEntry =
  data :: 'a
  timestamp :: int
  expiry :: int

text \<open>
  The class has two private fields: the \<^verbatim>\<open>Map<string, CacheEntry<T>>\<close> and the default
  TTL. A JavaScript \<^verbatim>\<open>Map\<close> holds finitely many keys, each once.
\<close>

record 'a simpleCache =
  cache :: "(string, 'a cacheEntry) fmap"
  defaultTTL :: int

text \<open>\<^verbatim>\<open>constructor(defaultTTL: number = 300000)\<close>; \<open>None\<close> is the omitted argument.\<close>

definition SimpleCache :: "int option \<Rightarrow> 'a simpleCache" where
  "SimpleCache ttl =
     \<lparr>cache = fmempty, defaultTTL = (case ttl of None \<Rightarrow> 300000 | Some t \<Rightarrow> t)\<rparr>"

text \<open>
  \<^verbatim>\<open>const expiry = ttl || this.defaultTTL\<close>: the operator \<^verbatim>\<open>||\<close> takes its right operand
  when the left one is falsy, which for a number is \<open>0\<close> (or an omitted argument).
\<close>

definition set_cache :: "int \<Rightarrow> string \<Rightarrow> 'a \<Rightarrow> int option \<Rightarrow> 'a simpleCache \<Rightarrow> 'a simpleCache" where
  "set_cache now key v ttl c =
     (let expiry = (case ttl of None \<Rightarrow> defaultTTL c
                    | Some t \<Rightarrow> if t = 0 then defaultTTL c else t)
      in c\<lparr>cache := fmupd key \<lparr>data = v, timestamp = now, expiry = expiry\<rparr> (cache c)\<rparr>)"

text \<open>
  \<^verbatim>\<open>get(key)\<close> returns the value or \<^verbatim>\<open>null\<close> (\<open>None\<close>) together with the cache, from which
  an entry found expired has been deleted.
\<close>

definition get_cache :: "int \<Rightarrow> string \<Rightarrow> 'a simpleCache \<Rightarrow> 'a option \<times> 'a simpleCache" where
  "get_cache now key c =
     (case fmlookup (cache c) key of
        None \<Rightarrow> (None, c)
      | Some entry \<Rightarrow>
          if now - timestamp entry > expiry entry
          then (None, c\<lparr>cache := fmdrop key (cache c)\<rparr>)
          else (Some (data entry), c))"

definition has_cache :: "int \<Rightarrow> string \<Rightarrow> 'a simpleCache \<Rightarrow> bool \<times> 'a simpleCache" where
  "has_cache now key c = (case get_cache now key c of (r, c') \<Rightarrow> (r \<noteq> None, c'))"

definition clear_cache :: "'a simpleCache \<Rightarrow> 'a simpleCache" where
  "clear_cache c = c\<lparr>cache := fmempty\<rparr>"

definition size_cache :: "'a simpleCache \<Rightarrow> nat" where
  "size_cache c = fcard (fmdom (cache c))"

section \<open>JavaScript strings\<close>

text \<open>
  A \<open>string\<close> stands for a JavaScript string whose UTF-16 code units are all below 256,
  one \<open>char\<close> for each code unit, so that \<open>length\<close> is \<^verbatim>\<open>.length\<close>. The built-in methods
  the sources call are written out for such strings.
\<close>

text \<open>
  \<^verbatim>\<open>String.prototype.toLowerCase\<close>, code unit by code unit: \<open>A\<close> to \<open>Z\<close> and the
  capital letters of the Latin-1 supplement (\<open>0xC0\<close> to \<open>0xDE\<close>, the multiplication sign
  \<open>0xD7\<close> apart) move up by 32.
\<close>

definition lowerChar :: "char \<Rightarrow> char" where
  "lowerChar c =
     (let n = (of_char c :: nat)
      in if (65 \<le> n \<and> n \<le> 90) \<or> (192 \<le> n \<and> n \<le> 222 \<and> n \<noteq> 215)
         then char_of (n + 32) else c)"

definition toLowerCase :: "string \<Rightarrow> string" where
  "toLowerCase s = map lowerChar s"

text \<open>\<^verbatim>\<open>s.startsWith(p)\<close> and \<^verbatim>\<open>s.includes(sub)\<close>.\<close>

fun startsWith :: "string \<Rightarrow> string \<Rightarrow> bool" where
  "startsWith s [] = True"
| "startsWith [] (p # ps) = False"
| "startsWith (c # cs) (p # ps) = (c = p \<and> startsWith cs ps)"

fun includesStr :: "string \<Rightarrow> string \<Rightarrow> bool" where
  "includesStr [] sub = (sub = [])"
| "includesStr (c # cs) sub = (startsWith (c # cs) sub \<or> includesStr cs sub)"

section \<open>The quality filter (isQualityImage)\<close>

text \<open>
  \<^verbatim>\<open>interface ExtractedImage { src: string; alt: string; width?: number; height?: number; }\<close>
  and \<^verbatim>\<open>interface ImageSource\<close>, which adds the optional tag \<^verbatim>\<open>source\<close>. An absent optional
  field is \<open>None\<close>.
\<close>

datatype image_origin = from_unsplash | from_upload | from_url | from_web_extraction

record ExtractedImage =
  src :: string
  alt :: string
  width :: "int option"
  height :: "int option"

record ImageSource = ExtractedImage +
  source :: "image_origin option"

text \<open>
  \<^verbatim>\<open>img.width && img.height\<close> as a condition: both numbers are present and neither is \<open>0\<close>.
\<close>

definition truthyNum :: "int option \<Rightarrow> bool" where
  "truthyNum n = (case n of None \<Rightarrow> False | Some k \<Rightarrow> k \<noteq> 0)"

text \<open>
  The local \<^verbatim>\<open>meetsSize\<close> of both filters: the thresholds apply when both dimensions are
  known, and unknown dimensions pass.
\<close>

definition meetsSize :: "int option \<Rightarrow> int option \<Rightarrow> int \<Rightarrow> int \<Rightarrow> bool" where
  "meetsSize w h minWidth minHeight =
     (if truthyNum w \<and> truthyNum h then the w \<ge> minWidth \<and> the h \<ge> minHeight else True)"

definition qualityFormats :: "string list" where
  "qualityFormats = [''.jpg'', ''.jpeg'', ''.png'', ''.webp'']"

text \<open>The filter of the hook \<^verbatim>\<open>useImageExtractor\<close>, with its thresholds 300 and 200.\<close>

definition lowQualityKeywords_hook :: "string list" where
  "lowQualityKeywords_hook =
     [''thumb-'', ''thumbnail'', ''icon-'', ''logo-'', ''sprite-'', ''avatar-'',
      ''banner-'', ''ads-'', ''tracking-'', ''pixel-'', ''beacon-'', ''button-'',
      ''social-'', ''widget-'', ''placeholder-'', ''loading-'', ''spinner-'',
      ''separator-'', ''divider-'', ''watermark-'', ''copyright-'', ''signature-'',
      ''badge-'', ''medal-'', ''flag-'', ''emoji-'', ''emoticon-'', ''smiley-'']"

definition isQualityImage_hook :: "'a ExtractedImage_scheme \<Rightarrow> bool" where
  "isQualityImage_hook img =
     (let srcLower = toLowerCase (src img);
          altLower = toLowerCase (alt img);
          hasQualityFormat = list_ex (\<lambda>ext. includesStr srcLower ext) qualityFormats;
          matchedKeywords = filter (\<lambda>keyword. includesStr srcLower keyword \<or> includesStr altLower keyword)
                              lowQualityKeywords_hook;
          hasLowQualityKeyword = (length matchedKeywords > 0)
      in hasQualityFormat \<and> \<not> hasLowQualityKeyword \<and> meetsSize (width img) (height img) 300 200)"

text \<open>The filter of the class \<^verbatim>\<open>ImageService\<close>, with the thresholds as arguments.\<close>

definition lowQualityKeywords :: "string list" where
  "lowQualityKeywords =
     [''thumb'', ''thumbnail'', ''icon'', ''logo'', ''sprite'', ''avatar'',
      ''banner'', ''ads'', ''tracking'', ''pixel'', ''beacon'', ''button'',
      ''social'', ''widget'', ''placeholder'', ''loading'', ''spinner'']"

definition isQualityImage :: "'a ExtractedImage_scheme \<Rightarrow> int \<Rightarrow> int \<Rightarrow> bool" where
  "isQualityImage img minWidth minHeight =
     (let srcLower = toLowerCase (src img);
          altLower = toLowerCase (alt img);
          hasQualityFormat = list_ex (\<lambda>ext. includesStr srcLower ext) qualityFormats;
          hasLowQualityKeyword =
            list_ex (\<lambda>keyword. includesStr srcLower keyword \<or> includesStr altLower keyword) lowQualityKeywords
      in hasQualityFormat \<and> \<not> hasLowQualityKeyword \<and> meetsSize (width img) (height img) minWidth minHeight)"

section \<open>JavaScript values\<close>

text \<open>
  The values that \<^verbatim>\<open>JSON.parse\<close> produces, and \<^verbatim>\<open>undefined\<close>. An object is the list of its
  own properties, each key once. Numbers are the finite values of JSON numbers.
\<close>

datatype jsval =
    JUndefined
  | JNull
  | JBool bool
  | JNum rat
  | JStr string
  | JArr "jsval list"
  | JObj "(string \<times> jsval) list"

text \<open>A thrown value: an \<^verbatim>\<open>Error\<close> with its message, or anything else.\<close>

datatype thrown = ErrorObj string | NonError

text \<open>\<^verbatim>\<open>err instanceof Error ? err.message : 'Erro desconhecido'\<close>\<close>

definition errorMsg :: "thrown \<Rightarrow> string" where
  "errorMsg err = (case err of ErrorObj m \<Rightarrow> m | NonError \<Rightarrow> ''Erro desconhecido'')"

text \<open>The truth value of a value used as a condition.\<close>

fun truthy :: "jsval \<Rightarrow> bool" where
  "truthy JUndefined = False"
| "truthy JNull = False"
| "truthy (JBool b) = b"
| "truthy (JNum r) = (r \<noteq> 0)"
| "truthy (JStr s) = (s \<noteq> [])"
| "truthy (JArr xs) = True"
| "truthy (JObj kvs) = True"

text \<open>
  Reading the property \<open>k\<close> of a value that is neither \<^verbatim>\<open>null\<close> nor \<^verbatim>\<open>undefined\<close>, for a key
  \<open>k\<close> other than \<^verbatim>\<open>length\<close> that no prototype defines: only an object can have it.
\<close>

definition getProp :: "jsval \<Rightarrow> string \<Rightarrow> jsval" where
  "getProp v k =
     (case v of
        JObj kvs \<Rightarrow> (case map_of kvs k of None \<Rightarrow> JUndefined | Some x \<Rightarrow> x)
      | _ \<Rightarrow> JUndefined)"

text \<open>The property \<^verbatim>\<open>length\<close> of such a value.\<close>

definition lengthOf :: "jsval \<Rightarrow> jsval" where
  "lengthOf v =
     (case v of
        JStr s \<Rightarrow> JNum (of_nat (length s))
      | JArr xs \<Rightarrow> JNum (of_nat (length xs))
      | JObj kvs \<Rightarrow> (case map_of kvs ''length'' of None \<Rightarrow> JUndefined | Some x \<Rightarrow> x)
      | _ \<Rightarrow> JUndefined)"

text \<open>Decimal digits of a number, as a template literal prints it.\<close>

fun show_nat :: "nat \<Rightarrow> string" where
  "show_nat n = (if n < 10 then [char_of (48 + n)] else show_nat (n div 10) @ [char_of (48 + n mod 10)])"

declare show_nat.simps [simp del]

definition show_int :: "int \<Rightarrow> string" where
  "show_int i = (if i < 0 then CHR ''-'' # show_nat (nat (- i)) else show_nat (nat i))"

section \<open>The parsed document\<close>

text \<open>
  An element as the extraction reads it: its attributes (\<^verbatim>\<open>getAttribute\<close>), and the DOM
  properties \<^verbatim>\<open>src\<close>, \<^verbatim>\<open>alt\<close>, \<^verbatim>\<open>naturalWidth\<close> and \<^verbatim>\<open>naturalHeight\<close>, which are the empty
  string and \<open>0\<close> where the element has none.
\<close>

record element =
  attrs :: "(string \<times> string) list"
  el_src :: string
  el_alt :: string
  naturalWidth :: int
  naturalHeight :: int

definition getAttribute :: "element \<Rightarrow> string \<Rightarrow> string option" where
  "getAttribute el k = map_of (attrs el) k"

text \<open>
  A document is what \<^verbatim>\<open>querySelectorAll\<close> answers for the selectors the code uses: the
  \<^verbatim>\<open>img\<close> elements, all elements, the Open Graph and Twitter meta elements, the text of the
  JSON-LD scripts, and the answer to any other selector.
\<close>

record document =
  doc_imgs :: "element list"
  doc_all :: "element list"
  doc_meta :: "element list"
  doc_jsonld :: "string list"
  doc_select :: "string \<Rightarrow> element list"

text \<open>\<^verbatim>\<open>new URL(url)\<close>, of which the code reads the protocol and the host.\<close>

record baseUrl =
  protocol :: string
  host :: string

text \<open>
  A photo of the stock-photo search as \<^verbatim>\<open>ImageService.searchUnsplash\<close> reads it, the payload
  being taken as the API documents it (the code does not check it), and the reply to a search.
\<close>

record unsplash_photo =
  regular :: string
  alt_description :: string
  description :: string
  photo_width :: "int option"
  photo_height :: "int option"

datatype search_response =
    SearchRejected thrown
  | SearchResponse bool string "thrown + unsplash_photo list"

text \<open>A reply read with \<^verbatim>\<open>response.json()\<close>, and with \<^verbatim>\<open>response.text()\<close> when it is not ok.\<close>

datatype json_response =
    JsonRejected thrown
  | JsonResponse bool string "thrown + string" "thrown + jsval"

text \<open>A local file: name, MIME type, size, and what reading and decoding it give.\<close>

record local_file =
  file_name :: string
  file_type :: string
  file_size :: int
  file_dataURL :: "string option"
  file_image :: "(int \<times> int) option"

section \<open>The environment and the state of the module\<close>

text \<open>
  What a \<^verbatim>\<open>fetch\<close> with method GET comes to: the promise rejects, or there is a response
  with its \<^verbatim>\<open>ok\<close> flag, status, status text, and the outcome of \<^verbatim>\<open>response.text()\<close>.
\<close>

datatype http_response =
    Rejected thrown
  | Response bool nat string "thrown + string"

text \<open>
  The platform and the network are parameters of the model. A request made at time \<open>t\<close>
  yields its outcome and the time it took. \<open>coerce_gt100\<close> tells whether a string, array or
  object, converted to a number as the operator \<^verbatim>\<open>>\<close> does, exceeds 100 (or that the conversion
  throws); \<open>null_property_error\<close> is the message of the \<^verbatim>\<open>TypeError\<close> for reading a property of
  \<^verbatim>\<open>null\<close>; \<open>random_ms\<close> is \<^verbatim>\<open>Math.random() * 1000\<close> at time \<open>t\<close>, in whole milliseconds.
  \<open>parse_url\<close> is \<^verbatim>\<open>new URL\<close> (\<open>None\<close> when it throws), \<open>parse_html\<close> the \<^verbatim>\<open>DOMParser\<close>,
  \<open>parseInt\<close> the built-in (\<open>None\<close> for \<^verbatim>\<open>NaN\<close>), \<open>js_toString\<close> the conversion of a value
  to a string, \<open>url_search_params\<close> the text of a \<^verbatim>\<open>URLSearchParams\<close>. \<open>unsplash_search\<close> and
  \<open>unsplash_json\<close> answer a GET of a stock-photo search URL; \<open>ai_post\<close> answers the POST
  that \<^verbatim>\<open>getApiConfig\<close> builds for a model, a theme and a slide count. The four keys are
  the \<^verbatim>\<open>import.meta.env\<close> variables, \<open>None\<close> when not set.
\<close>

record env =
  http_get :: "int \<Rightarrow> string \<Rightarrow> http_response \<times> int"
  http_head :: "int \<Rightarrow> string \<Rightarrow> bool \<times> int"
  load_image :: "int \<Rightarrow> string \<Rightarrow> (int \<times> int) option \<times> int"
  JSON_parse :: "string \<Rightarrow> jsval option"
  encodeURIComponent :: "string \<Rightarrow> string"
  coerce_gt100 :: "jsval \<Rightarrow> thrown + bool"
  null_property_error :: string
  random_ms :: "int \<Rightarrow> int"
  parse_url :: "string \<Rightarrow> baseUrl option"
  parse_html :: "jsval \<Rightarrow> document"
  parseInt :: "string \<Rightarrow> int option"
  js_toString :: "jsval \<Rightarrow> string"
  url_search_params :: "(string \<times> string) list \<Rightarrow> string"
  unsplash_search :: "int \<Rightarrow> string \<Rightarrow> search_response \<times> int"
  unsplash_json :: "int \<Rightarrow> string \<Rightarrow> json_response \<times> int"
  ai_post :: "int \<Rightarrow> string \<Rightarrow> string \<Rightarrow> int \<Rightarrow> json_response \<times> int"
  UNSPLASH_ACCESS_KEY :: "string option"
  OPENAI_API_KEY :: "string option"
  GROQ_API_KEY :: "string option"
  GEMINI_API_KEY :: "string option"

text \<open>
  The two console messages that report the outcome of one relay attempt (the \<^verbatim>\<open>console.log\<close>
  of a success and the \<^verbatim>\<open>console.warn\<close> of a failure), with the relay's name, the retry index
  and, for a failure, the error text.
\<close>

datatype console_event = Sucesso string int | Falha string int string

text \<open>
  The mutable state: the clock, the three module-level caches and the console; and, as a
  record of what has run, the HEAD requests that \<^verbatim>\<open>testImageUrl\<close> has issued, each with
  whether it resolved, and the queries that \<^verbatim>\<open>fetchImageForQuery\<close> has been called with.
\<close>

record world =
  clock :: int
  htmlCache :: "jsval simpleCache"
  imageUrlCache :: "bool simpleCache"
  imageDimensionsCache :: "(int \<times> int) simpleCache"
  console :: "console_event list"
  head_requests :: "(string \<times> bool) list"
  image_queries :: "string list"

definition initial_world :: "int \<Rightarrow> world" where
  "initial_world t =
     \<lparr>clock = t, htmlCache = SimpleCache (Some 600000), imageUrlCache = SimpleCache (Some 1800000),
      imageDimensionsCache = SimpleCache (Some 3600000), console = [], head_requests = [],
      image_queries = []\<rparr>"

section \<open>The relay chain (lib/corsProxy: fetchWithCorsProxy)\<close>

text \<open>
  \<^verbatim>\<open>interface CorsProxyService\<close>: a name, the builder of the relay URL and the unwrapping of
  the body. The static request headers are handed to \<^verbatim>\<open>fetch\<close> as they are and are part of
  what \<open>http_get\<close> answers to. \<open>parseResponse\<close> may throw.
\<close>

record corsProxyService =
  name :: string
  url_of :: "string \<Rightarrow> string"
  parseResponse :: "jsval \<Rightarrow> thrown + jsval"

text \<open>\<^verbatim>\<open>(data) => data.contents\<close> and \<^verbatim>\<open>(data) => data\<close>.\<close>

definition contents_of :: "env \<Rightarrow> jsval \<Rightarrow> thrown + jsval" where
  "contents_of e d =
     (if d = JNull \<or> d = JUndefined then Inl (ErrorObj (null_property_error e))
      else Inr (getProp d ''contents''))"

definition corsProxyServices :: "env \<Rightarrow> corsProxyService list" where
  "corsProxyServices e =
     [\<lparr>name = ''AllOrigins'',
       url_of = (\<lambda>targetUrl. ''https://api.allorigins.win/get?url='' @ encodeURIComponent e targetUrl),
       parseResponse = contents_of e\<rparr>,
      \<lparr>name = ''CORS.SH'',
       url_of = (\<lambda>targetUrl. ''https://cors.sh/'' @ targetUrl),
       parseResponse = Inr\<rparr>,
      \<lparr>name = ''Proxy CORS'',
       url_of = (\<lambda>targetUrl. ''https://api.codetabs.com/v1/proxy?quest='' @ encodeURIComponent e targetUrl),
       parseResponse = Inr\<rparr>,
      \<lparr>name = ''CORS Proxy'',
       url_of = (\<lambda>targetUrl. ''https://corsproxy.io/?'' @ encodeURIComponent e targetUrl),
       parseResponse = Inr\<rparr>,
      \<lparr>name = ''Proxy.rs'',
       url_of = (\<lambda>targetUrl. ''https://proxy.cors.sh/'' @ targetUrl),
       parseResponse = Inr\<rparr>,
      \<lparr>name = ''Crossorigin.me'',
       url_of = (\<lambda>targetUrl. ''https://crossorigin.me/'' @ targetUrl),
       parseResponse = Inr\<rparr>,
      \<lparr>name = ''ThingProxy'',
       url_of = (\<lambda>targetUrl. ''https://thingproxy.freeboard.io/fetch/'' @ encodeURIComponent e targetUrl),
       parseResponse = Inr\<rparr>]"

text \<open>
  The inner \<^verbatim>\<open>try\<close>: parse the text as JSON and unwrap that; when either step throws, unwrap
  the text itself.
\<close>

definition unwrap :: "env \<Rightarrow> corsProxyService \<Rightarrow> string \<Rightarrow> thrown + jsval" where
  "unwrap e service responseText =
     (case JSON_parse e responseText of
        None \<Rightarrow> parseResponse service (JStr responseText)
      | Some jsonData \<Rightarrow>
          (case parseResponse service jsonData of
             Inr v \<Rightarrow> Inr v
           | Inl _ \<Rightarrow> parseResponse service (JStr responseText)))"

text \<open>\<^verbatim>\<open>x > 100\<close> for the value \<open>x\<close> of a \<^verbatim>\<open>length\<close> property.\<close>

definition gt100 :: "env \<Rightarrow> jsval \<Rightarrow> thrown + bool" where
  "gt100 e x =
     (case x of
        JNum r \<Rightarrow> Inr (r > 100)
      | JUndefined \<Rightarrow> Inr False
      | JNull \<Rightarrow> Inr False
      | JBool b \<Rightarrow> Inr False
      | _ \<Rightarrow> coerce_gt100 e x)"

definition too_small :: string where
  "too_small = ''Conte'' @ [CHR 0xFA] @ ''do HTML muito pequeno ou vazio''"

text \<open>
  The body of the outer \<^verbatim>\<open>try\<close> for one response: \<open>Inr\<close> the accepted content, or \<open>Inl\<close> the
  \<^verbatim>\<open>errorMsg\<close> that the \<^verbatim>\<open>catch\<close> computes from what was thrown.
\<close>

definition attempt :: "env \<Rightarrow> corsProxyService \<Rightarrow> http_response \<Rightarrow> string + jsval" where
  "attempt e service resp =
     (case resp of
        Rejected err \<Rightarrow> Inl (errorMsg err)
      | Response ok status statusText txt \<Rightarrow>
          if \<not> ok then Inl (''HTTP '' @ show_nat status @ '': '' @ statusText)
          else (case txt of
                  Inl err \<Rightarrow> Inl (errorMsg err)
                | Inr responseText \<Rightarrow>
                    if responseText = [] then Inl ''Resposta vazia''
                    else (case unwrap e service responseText of
                            Inl err \<Rightarrow> Inl (errorMsg err)
                          | Inr htmlContent \<Rightarrow>
                              if truthy htmlContent
                              then (case gt100 e (lengthOf htmlContent) of
                                      Inl err \<Rightarrow> Inl (errorMsg err)
                                    | Inr b \<Rightarrow> if b then Inr htmlContent else Inl too_small)
                              else Inl too_small)))"

text \<open>
  The inner \<^verbatim>\<open>for\<close> loop over \<open>retry\<close> for one relay. It returns the accepted content, if any,
  the variable \<^verbatim>\<open>lastError\<close> and the state. After a failure that is not the relay's last,
  the loop sleeps \<^verbatim>\<open>Math.pow(2, retry) * 1000 + Math.random() * 1000\<close> milliseconds.
\<close>

function retryLoop ::
  "env \<Rightarrow> corsProxyService \<Rightarrow> string \<Rightarrow> int \<Rightarrow> int \<Rightarrow> string option \<Rightarrow> world
     \<Rightarrow> jsval option \<times> string option \<times> world" where
  "retryLoop e service target maxRetries retry lastError w =
     (if retry < maxRetries then
        (case http_get e (clock w) (url_of service target) of
           (resp, dt) \<Rightarrow>
             (case attempt e service resp of
                Inr htmlContent \<Rightarrow>
                  (Some htmlContent, lastError,
                   w\<lparr>clock := clock w + dt,
                     console := console w @ [Sucesso (name service) retry],
                     htmlCache := set_cache (clock w + dt) target htmlContent None (htmlCache w)\<rparr>)
              | Inl msg \<Rightarrow>
                  retryLoop e service target maxRetries (retry + 1)
                    (Some (name service @ '': '' @ msg))
                    (w\<lparr>clock := (if retry < maxRetries - 1
                                  then clock w + dt + (2 ^ nat retry * 1000 + random_ms e (clock w + dt))
                                  else clock w + dt),
                       console := console w @ [Falha (name service) retry msg]\<rparr>)))
      else (None, lastError, w))"
  by pat_completeness auto
termination
  by (relation "measure (\<lambda>(e, service, target, maxRetries, retry, lastError, w). nat (maxRetries - retry))")
     auto

declare retryLoop.simps [simp del]

text \<open>The outer \<^verbatim>\<open>for\<close> loop over the relays, in their configured order.\<close>

fun serviceLoop ::
  "env \<Rightarrow> corsProxyService list \<Rightarrow> string \<Rightarrow> int \<Rightarrow> string option \<Rightarrow> world
     \<Rightarrow> jsval option \<times> string option \<times> world" where
  "serviceLoop e [] target maxRetries lastError w = (None, lastError, w)"
| "serviceLoop e (service # rest) target maxRetries lastError w =
     (case retryLoop e service target maxRetries 0 lastError w of
        (Some htmlContent, lastError', w') \<Rightarrow> (Some htmlContent, lastError', w')
      | (None, lastError', w') \<Rightarrow> serviceLoop e rest target maxRetries lastError' w')"

definition all_failed :: "int \<Rightarrow> string option \<Rightarrow> string" where
  "all_failed maxRetries lastError =
     ''Todos os servi'' @ [CHR 0xE7] @ ''os CORS falharam ap'' @ [CHR 0xF3] @ ''s '' @ show_int maxRetries
       @ '' tentativas. '' @ [CHR 0xDA] @ ''ltimo erro: ''
       @ (case lastError of None \<Rightarrow> ''null'' | Some m \<Rightarrow> m)"

text \<open>
  \<^verbatim>\<open>fetchWithCorsProxy(url, maxRetries = 3)\<close>: \<open>Inl\<close> is the message of the error thrown, \<open>Inr\<close>
  the value returned. A cached value is returned when it is truthy.
\<close>

definition fetchWithCorsProxy :: "env \<Rightarrow> string \<Rightarrow> int \<Rightarrow> world \<Rightarrow> (string + jsval) \<times> world" where
  "fetchWithCorsProxy e target maxRetries w =
     (case get_cache (clock w) target (htmlCache w) of
        (cached, hc) \<Rightarrow>
          (case (case cached of None \<Rightarrow> None | Some v \<Rightarrow> if truthy v then Some v else None) of
             Some v \<Rightarrow> (Inr v, w\<lparr>htmlCache := hc\<rparr>)
           | None \<Rightarrow>
               (case serviceLoop e (corsProxyServices e) target maxRetries None (w\<lparr>htmlCache := hc\<rparr>) of
                  (Some htmlContent, lastError, w') \<Rightarrow> (Inr htmlContent, w')
                | (None, lastError, w') \<Rightarrow> (Inl (all_failed maxRetries lastError), w'))))"

text \<open>Reading the console: which relay and retry an event is about, and what it reports.\<close>

fun ev_key :: "console_event \<Rightarrow> string \<times> int" where
  "ev_key (Sucesso n k) = (n, k)"
| "ev_key (Falha n k m) = (n, k)"

fun is_failure :: "console_event \<Rightarrow> bool" where
  "is_failure (Sucesso n k) = False"
| "is_failure (Falha n k m) = True"

fun failure_text :: "console_event \<Rightarrow> string" where
  "failure_text (Sucesso n k) = []"
| "failure_text (Falha n k m) = m"

text \<open>The combinations of relay and retry, in the order the loops visit them.\<close>

definition combinations :: "corsProxyService list \<Rightarrow> int \<Rightarrow> (string \<times> int) list" where
  "combinations services maxRetries =
     concat (map (\<lambda>service. map (Pair (name service)) [0..maxRetries - 1]) services)"

text \<open>
  The acceptance test \<^verbatim>\<open>htmlContent && htmlContent.length > 100\<close>, and the statement that
  the HTML cache holds accepted contents only.
\<close>

definition accepted :: "env \<Rightarrow> jsval \<Rightarrow> bool" where
  "accepted e v \<longleftrightarrow> truthy v \<and> gt100 e (lengthOf v) = Inr True"

definition html_cache_ok :: "env \<Rightarrow> world \<Rightarrow> bool" where
  "html_cache_ok e w \<longleftrightarrow>
     (\<forall>k entry. fmlookup (cache (htmlCache w)) k = Some entry \<longrightarrow> accepted e (data entry))"

text \<open>
  At time \<open>t\<close> the relay answers the request for \<open>target\<close> with an ok response whose text is
  not empty and unwraps to \<open>body\<close>.
\<close>

definition relay_yields :: "env \<Rightarrow> corsProxyService \<Rightarrow> string \<Rightarrow> int \<Rightarrow> jsval \<Rightarrow> bool" where
  "relay_yields e service target t body \<longleftrightarrow>
     (\<exists>status statusText text.
        fst (http_get e t (url_of service target)) = Response True status statusText (Inr text) \<and>
        text \<noteq> [] \<and> unwrap e service text = Inr body)"

text \<open>
  The combinations of relay and retry that the loops visit, each with its relay, in order.
  At time \<open>t\<close> the relay gives a response that the chain accepts, with content \<open>v\<close>. A console
  event is the failure of one combination: it is the warning for that relay and retry, its
  text is the error message of the attempt on the response that the relay gave to a request
  made at some time \<open>t\<close>, and that response is one the chain does not accept.
\<close>

definition attempts :: "corsProxyService list \<Rightarrow> int \<Rightarrow> (corsProxyService \<times> int) list" where
  "attempts services maxRetries =
     concat (map (\<lambda>service. map (Pair service) [0..maxRetries - 1]) services)"

definition relay_accepts :: "env \<Rightarrow> corsProxyService \<Rightarrow> string \<Rightarrow> int \<Rightarrow> jsval \<Rightarrow> bool" where
  "relay_accepts e service target t v \<longleftrightarrow> relay_yields e service target t v \<and> accepted e v"

definition failed_at :: "env \<Rightarrow> string \<Rightarrow> corsProxyService \<times> int \<Rightarrow> console_event \<Rightarrow> bool" where
  "failed_at e target a ev \<longleftrightarrow>
     (\<exists>t msg. ev = Falha (name (fst a)) (snd a) msg \<and>
        attempt e (fst a) (fst (http_get e t (url_of (fst a) target))) = Inl msg \<and>
        (\<forall>v. \<not> relay_accepts e (fst a) target t v))"

text \<open>Two environments for examples: every request is refused; and the first relay answers
  with a short body while every other relay answers with a page of 120 characters.\<close>

definition env_down :: env where
  "env_down =
     \<lparr>http_get = (\<lambda>t u. (Rejected (ErrorObj ''Failed to fetch''), 5)),
      http_head = (\<lambda>t u. (False, 5)),
      load_image = (\<lambda>t u. (None, 5)),
      JSON_parse = (\<lambda>s. None),
      encodeURIComponent = (\<lambda>s. s),
      coerce_gt100 = (\<lambda>v. Inr False),
      null_property_error = ''Cannot read properties of null'',
      random_ms = (\<lambda>t. 0),
      parse_url = (\<lambda>s. None),
      parse_html = (\<lambda>v. \<lparr>doc_imgs = [], doc_all = [], doc_meta = [], doc_jsonld = [],
                             doc_select = (\<lambda>sel. [])\<rparr>),
      parseInt = (\<lambda>s. None),
      js_toString = (\<lambda>v. []),
      url_search_params = (\<lambda>ps. []),
      unsplash_search = (\<lambda>t u. (SearchRejected (ErrorObj ''Failed to fetch''), 5)),
      unsplash_json = (\<lambda>t u. (JsonRejected (ErrorObj ''Failed to fetch''), 5)),
      ai_post = (\<lambda>t m th n. (JsonRejected (ErrorObj ''Failed to fetch''), 5)),
      UNSPLASH_ACCESS_KEY = None,
      OPENAI_API_KEY = None,
      GROQ_API_KEY = None,
      GEMINI_API_KEY = None\<rparr>"

definition env_short_then_long :: env where
  "env_short_then_long =
     \<lparr>http_get = (\<lambda>t u. if u = ''https://api.allorigins.win/get?url=https://example.com/''
                         then (Response True 200 ''OK'' (Inr ''short''), 5)
                         else (Response True 200 ''OK'' (Inr (replicate 120 CHR ''x'')), 5)),
      http_head = (\<lambda>t u. (True, 5)),
      load_image = (\<lambda>t u. (None, 5)),
      JSON_parse = (\<lambda>s. if s = ''short'' then Some (JObj [(''contents'', JStr ''tiny'')]) else None),
      encodeURIComponent = (\<lambda>s. s),
      coerce_gt100 = (\<lambda>v. Inr False),
      null_property_error = ''Cannot read properties of null'',
      random_ms = (\<lambda>t. 0),
      parse_url = (\<lambda>s. None),
      parse_html = (\<lambda>v. \<lparr>doc_imgs = [], doc_all = [], doc_meta = [], doc_jsonld = [],
                             doc_select = (\<lambda>sel. [])\<rparr>),
      parseInt = (\<lambda>s. None),
      js_toString = (\<lambda>v. []),
      url_search_params = (\<lambda>ps. []),
      unsplash_search = (\<lambda>t u. (SearchRejected (ErrorObj ''Failed to fetch''), 5)),
      unsplash_json = (\<lambda>t u. (JsonRejected (ErrorObj ''Failed to fetch''), 5)),
      ai_post = (\<lambda>t m th n. (JsonRejected (ErrorObj ''Failed to fetch''), 5)),
      UNSPLASH_ACCESS_KEY = None,
      OPENAI_API_KEY = None,
      GROQ_API_KEY = None,
      GEMINI_API_KEY = None\<rparr>"

section \<open>The reachability resolver (lib/corsProxy: testImageUrl, getWorkingImageUrl)\<close>

text \<open>
  \<^verbatim>\<open>testImageUrl\<close>: a cached verdict (of either sign) is returned as it is; otherwise one HEAD
  request is made, and whether it resolved is cached and returned.
\<close>

definition testImageUrl :: "env \<Rightarrow> string \<Rightarrow> world \<Rightarrow> bool \<times> world" where
  "testImageUrl e imageUrl w =
     (case get_cache (clock w) imageUrl (imageUrlCache w) of
        (Some cached, c) \<Rightarrow> (cached, w\<lparr>imageUrlCache := c\<rparr>)
      | (None, c) \<Rightarrow>
          (case http_head e (clock w) imageUrl of
             (isAccessible, dt) \<Rightarrow>
               (isAccessible,
                w\<lparr>clock := clock w + dt,
                  imageUrlCache := set_cache (clock w + dt) imageUrl isAccessible None c,
                  head_requests := head_requests w @ [(imageUrl, isAccessible)]\<rparr>)))"

text \<open>
  The regular expressions of \<^verbatim>\<open>getWorkingImageUrl\<close> are sequences of literal pieces and
  \<^verbatim>\<open>\d+\<close>. Every \<^verbatim>\<open>\d+\<close> in them is followed by a literal that starts with no digit, or
  ends the expression, so the longest run of digits is the only one that can match.
\<close>

datatype tok = Lit string | Digits

definition isDigit :: "char \<Rightarrow> bool" where
  "isDigit c \<longleftrightarrow> 48 \<le> (of_char c :: nat) \<and> (of_char c :: nat) \<le> 57"

text \<open>A match of the pattern at the start of the string: what follows the match.\<close>

fun matchAt :: "tok list \<Rightarrow> string \<Rightarrow> string option" where
  "matchAt [] s = Some s"
| "matchAt (Lit l # ts) s = (if startsWith s l then matchAt ts (drop (length l) s) else None)"
| "matchAt (Digits # ts) s =
     (if takeWhile isDigit s = [] then None else matchAt ts (dropWhile isDigit s))"

text \<open>\<^verbatim>\<open>s.replace(/pattern/g, r)\<close> for such a pattern.\<close>

fun replaceAll :: "tok list \<Rightarrow> string \<Rightarrow> string \<Rightarrow> string" where
  "replaceAll p r [] = []"
| "replaceAll p r (c # cs) =
     (case matchAt p (c # cs) of
        None \<Rightarrow> c # replaceAll p r cs
      | Some rest \<Rightarrow>
          if length rest < length (c # cs) then r @ replaceAll p r rest
          else c # replaceAll p r cs)"

definition urlVariations :: "string \<Rightarrow> string list" where
  "urlVariations originalUrl =
     [originalUrl,
      takeWhile (\<lambda>c. c \<noteq> CHR ''?'') originalUrl,
      replaceAll [Lit ''/w_'', Digits, Lit '',h_'', Digits] ''/w_800,h_600'' originalUrl,
      replaceAll [Lit ''/resize/'', Digits, Lit ''x'', Digits] ''/resize/800x600'' originalUrl,
      replaceAll [Lit ''&w='', Digits, Lit ''&h='', Digits] ''&w=800&h=600'' originalUrl,
      replaceAll [Lit ''.webp''] ''.jpg'' originalUrl,
      replaceAll [Lit ''.avif''] ''.jpg'' originalUrl,
      replaceAll [Lit ''cdn'', Digits, Lit ''.''] ''cdn.'' originalUrl,
      replaceAll [Lit ''img'', Digits, Lit ''.''] ''img.'' originalUrl,
      (if startsWith originalUrl ''http://'' then ''https://'' @ drop 7 originalUrl else originalUrl)]"

text \<open>The loop of \<^verbatim>\<open>getWorkingImageUrl\<close>: the first variation that tests accessible.\<close>

fun firstWorking :: "env \<Rightarrow> string list \<Rightarrow> world \<Rightarrow> string option \<times> world" where
  "firstWorking e [] w = (None, w)"
| "firstWorking e (variation # rest) w =
     (case testImageUrl e variation w of
        (True, w') \<Rightarrow> (Some variation, w')
      | (False, w') \<Rightarrow> firstWorking e rest w')"

definition getWorkingImageUrl :: "env \<Rightarrow> string \<Rightarrow> world \<Rightarrow> string option \<times> world" where
  "getWorkingImageUrl e originalUrl w = firstWorking e (urlVariations originalUrl) w"

text \<open>
  \<^verbatim>\<open>loadImageDimensions\<close> (the same in the image service and in the hook): the cached
  dimensions, or those of the decoded image, which are then cached. \<open>load_image\<close> answers
  \<open>None\<close> when the image fails to load or has not loaded after five seconds.
\<close>

definition loadImageDimensions :: "env \<Rightarrow> string \<Rightarrow> world \<Rightarrow> (int \<times> int) option \<times> world" where
  "loadImageDimensions e imgSrc w =
     (case get_cache (clock w) imgSrc (imageDimensionsCache w) of
        (Some cached, c) \<Rightarrow> (Some cached, w\<lparr>imageDimensionsCache := c\<rparr>)
      | (None, c) \<Rightarrow>
          (case load_image e (clock w) imgSrc of
             (Some dimensions, dt) \<Rightarrow>
               (Some dimensions,
                w\<lparr>clock := clock w + dt,
                  imageDimensionsCache := set_cache (clock w + dt) imgSrc dimensions None c\<rparr>)
           | (None, dt) \<Rightarrow> (None, w\<lparr>clock := clock w + dt, imageDimensionsCache := c\<rparr>)))"

section \<open>Collecting candidates from a page\<close>

text \<open>White space as \<^verbatim>\<open>trim\<close> and \<^verbatim>\<open>\s\<close> see it, among the code units below 256.\<close>

definition isSpace :: "char \<Rightarrow> bool" where
  "isSpace c \<longleftrightarrow> (of_char c :: nat) \<in> {9, 10, 11, 12, 13, 32, 160}"

definition trim :: "string \<Rightarrow> string" where
  "trim s = rev (dropWhile isSpace (rev (dropWhile isSpace s)))"

text \<open>A chain \<^verbatim>\<open>a || b || c\<close> of strings that may be absent: the first that is truthy.\<close>

fun firstTruthy :: "string option list \<Rightarrow> string option" where
  "firstTruthy [] = None"
| "firstTruthy (None # rest) = firstTruthy rest"
| "firstTruthy (Some s # rest) = (if s \<noteq> [] then Some s else firstTruthy rest)"

text \<open>\<^verbatim>\<open>convertToAbsoluteUrl\<close>; none of its branches can throw.\<close>

definition convertToAbsoluteUrl :: "string \<Rightarrow> baseUrl \<Rightarrow> string" where
  "convertToAbsoluteUrl s b =
     (if startsWith s ''//'' then ''https:'' @ s
      else if startsWith s ''/'' then protocol b @ ''//'' @ host b @ s
      else if \<not> startsWith s ''http'' then protocol b @ ''//'' @ host b @ ''/'' @ s
      else s)"

text \<open>
  The step that every pass repeats:
  \<^verbatim>\<open>if (absoluteSrc && !foundUrls.has(absoluteSrc)) { foundUrls.add(absoluteSrc); candidateImages.push(img) }\<close>.
  The set \<^verbatim>\<open>foundUrls\<close> is the list of its members in insertion order.
\<close>

definition addCandidate :: "string \<Rightarrow> 'i \<Rightarrow> string list \<times> 'i list \<Rightarrow> string list \<times> 'i list" where
  "addCandidate absoluteSrc img st =
     (case st of (foundUrls, candidateImages) \<Rightarrow>
        if absoluteSrc \<noteq> [] \<and> absoluteSrc \<notin> set foundUrls
        then (foundUrls @ [absoluteSrc], candidateImages @ [img])
        else (foundUrls, candidateImages))"

text \<open>The source, alternative text and declared size that the \<^verbatim>\<open>img\<close> pass reads.\<close>

definition imgSource :: "element \<Rightarrow> string option" where
  "imgSource img =
     firstTruthy
       [Some (el_src img), getAttribute img ''data-src'', getAttribute img ''data-lazy-src'',
        getAttribute img ''data-original'',
        map_option (\<lambda>v. takeWhile (\<lambda>c. c \<noteq> CHR '' '') (trim (takeWhile (\<lambda>c. c \<noteq> CHR '','') v)))
          (getAttribute img ''data-srcset'')]"

definition imgAlt :: "element \<Rightarrow> string" where
  "imgAlt img =
     (case firstTruthy [Some (el_alt img), getAttribute img ''title'', getAttribute img ''data-alt''] of
        None \<Rightarrow> [] | Some a \<Rightarrow> a)"

text \<open>\<^verbatim>\<open>natural || parseInt(el.getAttribute(k) || '0') || undefined\<close>\<close>

definition declaredSize :: "env \<Rightarrow> int \<Rightarrow> element \<Rightarrow> string \<Rightarrow> int option" where
  "declaredSize e natural el k =
     (if natural \<noteq> 0 then Some natural
      else (case parseInt e (case firstTruthy [getAttribute el k] of None \<Rightarrow> ''0'' | Some v \<Rightarrow> v) of
              None \<Rightarrow> None
            | Some n \<Rightarrow> if n \<noteq> 0 then Some n else None))"

text \<open>\<^verbatim>\<open>ImageService.extractFromImgTags\<close>\<close>

definition extractFromImgTags ::
  "env \<Rightarrow> document \<Rightarrow> baseUrl \<Rightarrow> string list \<times> ImageSource list \<Rightarrow> string list \<times> ImageSource list" where
  "extractFromImgTags e doc b st =
     fold (\<lambda>img st.
             case imgSource img of
               None \<Rightarrow> st
             | Some s \<Rightarrow>
                 addCandidate (convertToAbsoluteUrl s b)
                   \<lparr>src = convertToAbsoluteUrl s b, alt = imgAlt img,
                    width = declaredSize e (naturalWidth img) img ''width'',
                    height = declaredSize e (naturalHeight img) img ''height'',
                    source = None\<rparr> st)
          (doc_imgs doc) st"

text \<open>
  The first match of \<^verbatim>\<open>/background-image:\s*url\(['"]?([^'"()]+)['"]?\)/\<close> in a style: its
  group 1. At a given start the expression can match in one way only.
\<close>

definition isQuote :: "char \<Rightarrow> bool" where
  "isQuote c \<longleftrightarrow> (of_char c :: nat) = 39 \<or> (of_char c :: nat) = 34"

definition inUrlClass :: "char \<Rightarrow> bool" where
  "inUrlClass c \<longleftrightarrow> \<not> isQuote c \<and> (of_char c :: nat) \<noteq> 40 \<and> (of_char c :: nat) \<noteq> 41"

definition dropQuote :: "string \<Rightarrow> string" where
  "dropQuote s = (case s of [] \<Rightarrow> [] | c # cs \<Rightarrow> if isQuote c then cs else s)"

definition matchBgAt :: "string \<Rightarrow> string option" where
  "matchBgAt s =
     (if startsWith s ''background-image:''
      then (let s1 = dropWhile isSpace (drop 17 s)
            in if startsWith s1 ''url(''
               then (let s3 = dropQuote (drop 4 s1);
                         u = takeWhile inUrlClass s3;
                         s5 = dropQuote (dropWhile inUrlClass s3)
                     in if u \<noteq> [] \<and> startsWith s5 '')'' then Some u else None)
               else None)
      else None)"

fun bgMatch :: "string \<Rightarrow> string option" where
  "bgMatch [] = matchBgAt []"
| "bgMatch (c # cs) = (case matchBgAt (c # cs) of Some u \<Rightarrow> Some u | None \<Rightarrow> bgMatch cs)"

definition styleOf :: "element \<Rightarrow> string" where
  "styleOf el = (case firstTruthy [getAttribute el ''style''] of None \<Rightarrow> [] | Some v \<Rightarrow> v)"

definition elementsWithBg :: "document \<Rightarrow> element list" where
  "elementsWithBg doc = filter (\<lambda>el. includesStr (styleOf el) ''background-image'') (doc_all doc)"

definition bgAlt :: "element \<Rightarrow> string" where
  "bgAlt el =
     (case firstTruthy [getAttribute el ''alt'', getAttribute el ''title''] of
        None \<Rightarrow> ''Background Image'' | Some a \<Rightarrow> a)"

text \<open>\<^verbatim>\<open>ImageService.extractFromBackgroundImages\<close>\<close>

definition extractFromBackgroundImages ::
  "document \<Rightarrow> baseUrl \<Rightarrow> string list \<times> ImageSource list \<Rightarrow> string list \<times> ImageSource list" where
  "extractFromBackgroundImages doc b st =
     fold (\<lambda>el st.
             case bgMatch (styleOf el) of
               None \<Rightarrow> st
             | Some m \<Rightarrow>
                 addCandidate (convertToAbsoluteUrl m b)
                   \<lparr>src = convertToAbsoluteUrl m b, alt = bgAlt el,
                    width = None, height = None, source = None\<rparr> st)
          (elementsWithBg doc) st"

text \<open>\<^verbatim>\<open>ImageService.extractFromMetaTags\<close>\<close>

definition extractFromMetaTags ::
  "document \<Rightarrow> baseUrl \<Rightarrow> string list \<times> ImageSource list \<Rightarrow> string list \<times> ImageSource list" where
  "extractFromMetaTags doc b st =
     fold (\<lambda>meta st.
             case firstTruthy [getAttribute meta ''content''] of
               None \<Rightarrow> st
             | Some content \<Rightarrow>
                 addCandidate (convertToAbsoluteUrl content b)
                   \<lparr>src = convertToAbsoluteUrl content b, alt = ''Social Media Image'',
                    width = None, height = None, source = None\<rparr> st)
          (doc_meta doc) st"

text \<open>\<^verbatim>\<open>isDirectImageUrl\<close> (the same in the image service and in the hook).\<close>

definition isDirectImageUrl :: "string \<Rightarrow> bool" where
  "isDirectImageUrl u =
     list_ex (\<lambda>ext. includesStr (toLowerCase u) ext)
       [''.jpg'', ''.jpeg'', ''.png'', ''.webp'', ''.gif'', ''.bmp'', ''.svg'']"

text \<open>The keys of an object that \<^verbatim>\<open>extractImagesFromJson\<close> follows.\<close>

definition followsKey :: "string \<Rightarrow> bool" where
  "followsKey k \<longleftrightarrow> includesStr (toLowerCase k) ''image'' \<or> k = ''url'' \<or> k = ''contentUrl''"

text \<open>
  \<^verbatim>\<open>ImageService.extractImagesFromJson\<close>. The keys of an array are its indices, none of which
  is followed, so nothing is collected under an array.
\<close>

fun extractImagesFromJson ::
    "jsval \<Rightarrow> baseUrl \<Rightarrow> string list \<times> ImageSource list \<Rightarrow> string list \<times> ImageSource list"
  and extractImagesFromProps ::
    "(string \<times> jsval) list \<Rightarrow> baseUrl \<Rightarrow> string list \<times> ImageSource list \<Rightarrow> string list \<times> ImageSource list"
  where
  "extractImagesFromJson (JStr s) b st =
     (if isDirectImageUrl s
      then addCandidate (convertToAbsoluteUrl s b)
             \<lparr>src = convertToAbsoluteUrl s b, alt = ''Structured Data Image'',
              width = None, height = None, source = None\<rparr> st
      else st)"
| "extractImagesFromJson (JObj kvs) b st = extractImagesFromProps kvs b st"
| "extractImagesFromJson (JArr xs) b st = st"
| "extractImagesFromJson JUndefined b st = st"
| "extractImagesFromJson JNull b st = st"
| "extractImagesFromJson (JBool x) b st = st"
| "extractImagesFromJson (JNum r) b st = st"
| "extractImagesFromProps [] b st = st"
| "extractImagesFromProps ((k, v) # kvs) b st =
     extractImagesFromProps kvs b (if followsKey k then extractImagesFromJson v b st else st)"

text \<open>\<^verbatim>\<open>ImageService.extractFromStructuredData\<close>; a script that is not JSON is skipped.\<close>

definition extractFromStructuredData ::
  "env \<Rightarrow> document \<Rightarrow> baseUrl \<Rightarrow> string list \<times> ImageSource list \<Rightarrow> string list \<times> ImageSource list" where
  "extractFromStructuredData e doc b st =
     fold (\<lambda>script st.
             case JSON_parse e script of
               None \<Rightarrow> st
             | Some d \<Rightarrow> extractImagesFromJson d b st)
          (doc_jsonld doc) st"

text \<open>The four passes of \<^verbatim>\<open>extractImagesFromPage\<close>, from an empty set and an empty list.\<close>

definition collectCandidates :: "env \<Rightarrow> document \<Rightarrow> baseUrl \<Rightarrow> string list \<times> ImageSource list" where
  "collectCandidates e doc b =
     extractFromStructuredData e doc b
       (extractFromMetaTags doc b
          (extractFromBackgroundImages doc b
             (extractFromImgTags e doc b ([], []))))"

section \<open>The image service (class ImageService)\<close>

text \<open>
  The errors the four operations throw, one constructor for each \<^verbatim>\<open>throw\<close> in the class:
  the key is not configured; the search answered with a status that is not ok (with the
  status text); the file type is not allowed (with the type); the file is too large (with
  its size and the limit); the image or the file could not be read; the URL does not parse;
  it has no image extension; no variation of it is accessible; the relay chain failed (with
  its message); and whatever a \<^verbatim>\<open>fetch\<close> or \<^verbatim>\<open>response.json()\<close> threw.
\<close>

datatype service_error =
    UnsplashKeyMissing
  | UnsplashApiError string
  | UnsupportedType string
  | FileTooLarge int int
  | ImageLoadError
  | FileReadError
  | InvalidUrl
  | NotAnImageUrl
  | ImageUnreachable
  | RelaysFailed string
  | Thrown thrown

record ImageSearchOptions =
  query :: string
  page :: "int option"
  perPage :: "int option"
  orientation :: "string option"

record ImageExtractionOptions =
  page_url :: string
  opt_minWidth :: "int option"
  opt_minHeight :: "int option"
  opt_maxResults :: "int option"

record ImageUploadOptions =
  upload_file :: local_file
  opt_maxSize :: "int option"
  opt_allowedTypes :: "string list option"

definition DEFAULT_ALLOWED_TYPES :: "string list" where
  "DEFAULT_ALLOWED_TYPES = [''image/jpeg'', ''image/jpg'', ''image/png'', ''image/gif'', ''image/webp'']"

definition DEFAULT_MAX_FILE_SIZE :: int where
  "DEFAULT_MAX_FILE_SIZE = 10 * 1024 * 1024"

text \<open>A key that is set and not empty.\<close>

definition keyOf :: "string option \<Rightarrow> string option" where
  "keyOf k = firstTruthy [k]"

definition searchParams :: "ImageSearchOptions \<Rightarrow> string \<Rightarrow> (string \<times> string) list" where
  "searchParams options key =
     [(''query'', trim (query options)),
      (''page'', show_int (case page options of None \<Rightarrow> 1 | Some n \<Rightarrow> n)),
      (''per_page'', show_int (case perPage options of None \<Rightarrow> 30 | Some n \<Rightarrow> n)),
      (''client_id'', key)]
     @ (case firstTruthy [orientation options] of None \<Rightarrow> [] | Some v \<Rightarrow> [(''orientation'', v)])"

definition photoToImageSource :: "unsplash_photo \<Rightarrow> ImageSource" where
  "photoToImageSource img =
     \<lparr>src = regular img,
      alt = (case firstTruthy [Some (alt_description img), Some (description img)] of
               None \<Rightarrow> ''Imagem do Unsplash'' | Some a \<Rightarrow> a),
      width = photo_width img, height = photo_height img, source = Some from_unsplash\<rparr>"

text \<open>\<^verbatim>\<open>searchUnsplash\<close>: one GET of the search URL; its results are mapped to descriptors.\<close>

definition searchUnsplash ::
  "env \<Rightarrow> ImageSearchOptions \<Rightarrow> world \<Rightarrow> (service_error + ImageSource list) \<times> world" where
  "searchUnsplash e options w =
     (case keyOf (UNSPLASH_ACCESS_KEY e) of
        None \<Rightarrow> (Inl UnsplashKeyMissing, w)
      | Some key \<Rightarrow>
          (case unsplash_search e (clock w)
                  (''https://api.unsplash.com/search/photos?'' @ url_search_params e (searchParams options key)) of
             (SearchRejected err, dt) \<Rightarrow> (Inl (Thrown err), w\<lparr>clock := clock w + dt\<rparr>)
           | (SearchResponse ok statusText payload, dt) \<Rightarrow>
               if \<not> ok then (Inl (UnsplashApiError statusText), w\<lparr>clock := clock w + dt\<rparr>)
               else (case payload of
                       Inl err \<Rightarrow> (Inl (Thrown err), w\<lparr>clock := clock w + dt\<rparr>)
                     | Inr results \<Rightarrow> (Inr (map photoToImageSource results), w\<lparr>clock := clock w + dt\<rparr>))))"

text \<open>
  \<^verbatim>\<open>file.name.replace(/\.[^/.]+$/, '')\<close>: the last dot and what follows it are removed when
  what follows is not empty and has no slash.
\<close>

definition stripExtension :: "string \<Rightarrow> string" where
  "stripExtension n =
     (let ext = takeWhile (\<lambda>c. c \<noteq> CHR ''.'') (rev n)
      in if length ext < length n \<and> ext \<noteq> [] \<and> CHR ''/'' \<notin> set ext
         then rev (drop (length ext + 1) (rev n)) else n)"

text \<open>\<^verbatim>\<open>uploadImage\<close>: the descriptor holds the data URL that reading the file gives.\<close>

definition uploadImage ::
  "ImageUploadOptions \<Rightarrow> world \<Rightarrow> (service_error + ImageSource) \<times> world" where
  "uploadImage options w =
     (let f = upload_file options;
          maxSize = (case opt_maxSize options of None \<Rightarrow> DEFAULT_MAX_FILE_SIZE | Some m \<Rightarrow> m);
          allowedTypes = (case opt_allowedTypes options of None \<Rightarrow> DEFAULT_ALLOWED_TYPES | Some ts \<Rightarrow> ts)
      in if file_type f \<notin> set allowedTypes then (Inl (UnsupportedType (file_type f)), w)
         else if file_size f > maxSize then (Inl (FileTooLarge (file_size f) maxSize), w)
         else (case file_dataURL f of
                 None \<Rightarrow> (Inl FileReadError, w)
               | Some result \<Rightarrow>
                   (case file_image f of
                      None \<Rightarrow> (Inl ImageLoadError, w)
                    | Some (nw, nh) \<Rightarrow>
                        (Inr \<lparr>src = result, alt = stripExtension (file_name f),
                              width = Some nw, height = Some nh, source = Some from_upload\<rparr>, w))))"

text \<open>\<^verbatim>\<open>url.split('/').pop()?.split('.')[0] || fallback\<close>\<close>

definition nameFromUrl :: "string \<Rightarrow> string \<Rightarrow> string" where
  "nameFromUrl u fallback =
     (let n = takeWhile (\<lambda>c. c \<noteq> CHR ''.'') (rev (takeWhile (\<lambda>c. c \<noteq> CHR ''/'') (rev u)))
      in if n = [] then fallback else n)"

text \<open>\<^verbatim>\<open>processImageUrl\<close>\<close>

definition processImageUrl ::
  "env \<Rightarrow> string \<Rightarrow> world \<Rightarrow> (service_error + ImageSource) \<times> world" where
  "processImageUrl e u w =
     (if parse_url e u = None then (Inl InvalidUrl, w)
      else if \<not> list_ex (\<lambda>ext. includesStr (toLowerCase u) ext)
                   [''.jpg'', ''.jpeg'', ''.png'', ''.webp'', ''.gif'', ''.bmp'']
      then (Inl NotAnImageUrl, w)
      else (case getWorkingImageUrl e u w of
              (None, w1) \<Rightarrow> (Inl ImageUnreachable, w1)
            | (Some workingUrl, w1) \<Rightarrow>
                (case loadImageDimensions e workingUrl w1 of
                   (dimensions, w2) \<Rightarrow>
                     (Inr \<lparr>src = workingUrl, alt = nameFromUrl u ''Imagem'',
                           width = map_option fst dimensions, height = map_option snd dimensions,
                           source = Some from_url\<rparr>, w2))))"

text \<open>
  The loop of \<^verbatim>\<open>extractImagesFromPage\<close> over the candidates: a candidate with no working
  variation is skipped; otherwise its URL becomes the working one, missing dimensions are
  loaded, and it is kept when it passes the quality filter. The loop stops once
  \<^verbatim>\<open>maxResults\<close> images are kept.
\<close>

fun qualityLoop ::
  "env \<Rightarrow> int \<Rightarrow> int \<Rightarrow> int \<Rightarrow> ImageSource list \<Rightarrow> ImageSource list \<Rightarrow> world
     \<Rightarrow> ImageSource list \<times> world" where
  "qualityLoop e minW minH maxResults [] qualityImages w = (qualityImages, w)"
| "qualityLoop e minW minH maxResults (img # rest) qualityImages w =
     (case getWorkingImageUrl e (src img) w of
        (None, w1) \<Rightarrow> qualityLoop e minW minH maxResults rest qualityImages w1
      | (Some workingUrl, w1) \<Rightarrow>
          (case (if \<not> truthyNum (width img) \<or> \<not> truthyNum (height img)
                 then (case loadImageDimensions e workingUrl w1 of
                         (Some (dw, dh), w2) \<Rightarrow> (img\<lparr>src := workingUrl, width := Some dw, height := Some dh\<rparr>, w2)
                       | (None, w2) \<Rightarrow> (img\<lparr>src := workingUrl\<rparr>, w2))
                 else (img\<lparr>src := workingUrl\<rparr>, w1)) of
             (img', w2) \<Rightarrow>
               (let qualityImages' =
                      (if isQualityImage img' minW minH
                       then qualityImages @ [img'\<lparr>source := Some from_web_extraction\<rparr>]
                       else qualityImages)
                in if int (length qualityImages') \<ge> maxResults then (qualityImages', w2)
                   else qualityLoop e minW minH maxResults rest qualityImages' w2)))"

text \<open>\<^verbatim>\<open>extractImagesFromPage\<close>\<close>

definition extractImagesFromPage ::
  "env \<Rightarrow> ImageExtractionOptions \<Rightarrow> world \<Rightarrow> (service_error + ImageSource list) \<times> world" where
  "extractImagesFromPage e options w =
     (let u = page_url options;
          minW = (case opt_minWidth options of None \<Rightarrow> 300 | Some n \<Rightarrow> n);
          minH = (case opt_minHeight options of None \<Rightarrow> 200 | Some n \<Rightarrow> n);
          maxResults = (case opt_maxResults options of None \<Rightarrow> 15 | Some n \<Rightarrow> n)
      in case parse_url e u of
           None \<Rightarrow> (Inl InvalidUrl, w)
         | Some b \<Rightarrow>
             if isDirectImageUrl u
             then (case processImageUrl e u w of
                     (Inl err, w1) \<Rightarrow> (Inl err, w1)
                   | (Inr imageResult, w1) \<Rightarrow> (Inr [imageResult], w1))
             else (case fetchWithCorsProxy e u 3 w of
                     (Inl msg, w1) \<Rightarrow> (Inl (RelaysFailed msg), w1)
                   | (Inr htmlContent, w1) \<Rightarrow>
                       (case qualityLoop e minW minH maxResults
                               (snd (collectCandidates e (parse_html e htmlContent) b)) [] w1 of
                          (qualityImages, w2) \<Rightarrow> (Inr qualityImages, w2))))"

text \<open>
  What \<^verbatim>\<open>testImageUrl\<close> keeps true: a positive verdict in the reachability cache is that of
  a HEAD request that resolved.
\<close>

definition url_cache_ok :: "world \<Rightarrow> bool" where
  "url_cache_ok w \<longleftrightarrow>
     (\<forall>k entry. fmlookup (cache (imageUrlCache w)) k = Some entry \<and> data entry
        \<longrightarrow> (k, True) \<in> set (head_requests w))"

text \<open>A HEAD request for the URL has resolved.\<close>

definition probed :: "world \<Rightarrow> string \<Rightarrow> bool" where
  "probed w u \<longleftrightarrow> (u, True) \<in> set (head_requests w)"

text \<open>An environment in which the search answers with one photo, and a file that decodes.\<close>

definition env_one_photo :: env where
  "env_one_photo =
     env_down\<lparr>UNSPLASH_ACCESS_KEY := Some ''key'',
              unsplash_search := (\<lambda>t u. (SearchResponse True ''OK''
                 (Inr [\<lparr>regular = ''https://images.unsplash.com/photo-1'', alt_description = ''a cat'',
                        description = [], photo_width = Some 4000, photo_height = Some 3000\<rparr>]), 5))\<rparr>"

definition env_reachable :: env where
  "env_reachable =
     env_down\<lparr>http_head := (\<lambda>t u. (True, 5)),
              parse_url := (\<lambda>s. Some \<lparr>protocol = ''https:'', host = ''site.com''\<rparr>),
              load_image := (\<lambda>t u. (Some (800, 600), 5))\<rparr>"

definition cat_file :: local_file where
  "cat_file =
     \<lparr>file_name = ''cat.png'', file_type = ''image/png'', file_size = 2048,
      file_dataURL = Some ''data:image/png;base64,iVBORw0KGgo='', file_image = Some (640, 480)\<rparr>"

section \<open>The candidate collection of the hook (hooks/useImageExtractor: extractImages)\<close>

text \<open>
  The part of \<^verbatim>\<open>extractImages\<close> between the parsing of the page and the quality filter: five
  passes over the document that share \<^verbatim>\<open>foundUrls\<close> and \<^verbatim>\<open>candidateImages\<close>.
\<close>

definition imgTags_hook ::
  "env \<Rightarrow> document \<Rightarrow> baseUrl \<Rightarrow> string list \<times> ExtractedImage list \<Rightarrow> string list \<times> ExtractedImage list" where
  "imgTags_hook e doc b st =
     fold (\<lambda>img st.
             case imgSource img of
               None \<Rightarrow> st
             | Some s \<Rightarrow>
                 addCandidate (convertToAbsoluteUrl s b)
                   \<lparr>src = convertToAbsoluteUrl s b, alt = imgAlt img,
                    width = declaredSize e (naturalWidth img) img ''width'',
                    height = declaredSize e (naturalHeight img) img ''height''\<rparr> st)
          (doc_imgs doc) st"

definition backgroundImages_hook ::
  "document \<Rightarrow> baseUrl \<Rightarrow> string list \<times> ExtractedImage list \<Rightarrow> string list \<times> ExtractedImage list" where
  "backgroundImages_hook doc b st =
     fold (\<lambda>el st.
             case bgMatch (styleOf el) of
               None \<Rightarrow> st
             | Some m \<Rightarrow>
                 addCandidate (convertToAbsoluteUrl m b)
                   \<lparr>src = convertToAbsoluteUrl m b, alt = bgAlt el, width = None, height = None\<rparr> st)
          (elementsWithBg doc) st"

definition metaTags_hook ::
  "document \<Rightarrow> baseUrl \<Rightarrow> string list \<times> ExtractedImage list \<Rightarrow> string list \<times> ExtractedImage list" where
  "metaTags_hook doc b st =
     fold (\<lambda>meta st.
             case firstTruthy [getAttribute meta ''content''] of
               None \<Rightarrow> st
             | Some content \<Rightarrow>
                 addCandidate (convertToAbsoluteUrl content b)
                   \<lparr>src = convertToAbsoluteUrl content b, alt = ''Social Media Image'',
                    width = None, height = None\<rparr> st)
          (doc_meta doc) st"

text \<open>
  The local \<^verbatim>\<open>extractImagesFromJson(obj, path)\<close> of the hook: a string counts when it
  contains one of four extensions as written, and the key it was reached by goes into the
  alternative text.
\<close>

fun extractImagesFromJson_hook ::
    "jsval \<Rightarrow> string \<Rightarrow> baseUrl \<Rightarrow> string list \<times> ExtractedImage list \<Rightarrow> string list \<times> ExtractedImage list"
  and extractImagesFromProps_hook ::
    "(string \<times> jsval) list \<Rightarrow> baseUrl \<Rightarrow> string list \<times> ExtractedImage list \<Rightarrow> string list \<times> ExtractedImage list"
  where
  "extractImagesFromJson_hook (JStr s) path b st =
     (if includesStr s ''.jpg'' \<or> includesStr s ''.jpeg'' \<or> includesStr s ''.png'' \<or> includesStr s ''.webp''
      then addCandidate (convertToAbsoluteUrl s b)
             \<lparr>src = convertToAbsoluteUrl s b, alt = ''Structured Data Image ('' @ path @ '')'',
              width = None, height = None\<rparr> st
      else st)"
| "extractImagesFromJson_hook (JObj kvs) path b st = extractImagesFromProps_hook kvs b st"
| "extractImagesFromJson_hook (JArr xs) path b st = st"
| "extractImagesFromJson_hook JUndefined path b st = st"
| "extractImagesFromJson_hook JNull path b st = st"
| "extractImagesFromJson_hook (JBool x) path b st = st"
| "extractImagesFromJson_hook (JNum r) path b st = st"
| "extractImagesFromProps_hook [] b st = st"
| "extractImagesFromProps_hook ((k, v) # kvs) b st =
     extractImagesFromProps_hook kvs b (if followsKey k then extractImagesFromJson_hook v k b st else st)"

definition structuredData_hook ::
  "env \<Rightarrow> document \<Rightarrow> baseUrl \<Rightarrow> string list \<times> ExtractedImage list \<Rightarrow> string list \<times> ExtractedImage list" where
  "structuredData_hook e doc b st =
     fold (\<lambda>script st.
             case JSON_parse e script of
               None \<Rightarrow> st
             | Some d \<Rightarrow> extractImagesFromJson_hook d [] b st)
          (doc_jsonld doc) st"

definition ecommerceSelectors :: "string list" where
  "ecommerceSelectors =
     [''picture img'', ''[data-src]'', ''.product-image img'', ''.gallery-image img'',
      ''.carousel-item img'', ''.slider-item img'', ''.zoom-image'',
      ''[class*='' @ [CHR 0x22] @ ''image'' @ [CHR 0x22] @ ''] img'',
      ''[id*='' @ [CHR 0x22] @ ''image'' @ [CHR 0x22] @ ''] img'']"

definition productSource :: "element \<Rightarrow> string option" where
  "productSource el =
     firstTruthy [Some (el_src el), getAttribute el ''data-src'', getAttribute el ''data-original'']"

definition productAlt :: "element \<Rightarrow> string" where
  "productAlt el =
     (case firstTruthy [Some (el_alt el), getAttribute el ''title''] of
        None \<Rightarrow> ''Product Image'' | Some a \<Rightarrow> a)"

definition ecommerce_hook ::
  "env \<Rightarrow> document \<Rightarrow> baseUrl \<Rightarrow> string list \<times> ExtractedImage list \<Rightarrow> string list \<times> ExtractedImage list" where
  "ecommerce_hook e doc b st =
     fold (\<lambda>selector st.
             fold (\<lambda>el st.
                     case productSource el of
                       None \<Rightarrow> st
                     | Some s \<Rightarrow>
                         addCandidate (convertToAbsoluteUrl s b)
                           \<lparr>src = convertToAbsoluteUrl s b, alt = productAlt el,
                            width = declaredSize e (naturalWidth el) el ''width'',
                            height = declaredSize e (naturalHeight el) el ''height''\<rparr> st)
                  (doc_select doc selector) st)
          ecommerceSelectors st"

definition collectCandidates_hook :: "env \<Rightarrow> document \<Rightarrow> baseUrl \<Rightarrow> string list \<times> ExtractedImage list" where
  "collectCandidates_hook e doc b =
     ecommerce_hook e doc b
       (structuredData_hook e doc b
          (metaTags_hook doc b
             (backgroundImages_hook doc b
                (imgTags_hook e doc b ([], [])))))"

text \<open>
  What the passes keep true of \<^verbatim>\<open>foundUrls\<close> and \<^verbatim>\<open>candidateImages\<close>: the candidates' URLs
  are the members of the set, in order, each once.
\<close>

definition cand_inv :: "string list \<times> 'a ExtractedImage_scheme list \<Rightarrow> bool" where
  "cand_inv st \<longleftrightarrow> map src (snd st) = fst st \<and> distinct (fst st)"

text \<open>A step that keeps this true and only adds to the set.\<close>

definition step_ok :: "(string list \<times> 'a ExtractedImage_scheme list \<Rightarrow> string list \<times> 'a ExtractedImage_scheme list) \<Rightarrow> bool" where
  "step_ok f \<longleftrightarrow> (\<forall>st. (cand_inv st \<longrightarrow> cand_inv (f st)) \<and> set (fst st) \<subseteq> set (fst (f st)))"

text \<open>
  An example page: two \<^verbatim>\<open>img\<close> elements with the same absolute URL, the first in \<^verbatim>\<open>src\<close>, the
  second in \<^verbatim>\<open>data-src\<close>.
\<close>

definition page_two_imgs :: document where
  "page_two_imgs =
     \<lparr>doc_imgs =
        [\<lparr>attrs = [(''src'', ''https://site.com/a.jpg'')], el_src = ''https://site.com/a.jpg'',
          el_alt = [], naturalWidth = 0, naturalHeight = 0\<rparr>,
         \<lparr>attrs = [(''data-src'', ''https://site.com/a.jpg'')], el_src = [],
          el_alt = [], naturalWidth = 0, naturalHeight = 0\<rparr>],
      doc_all = [], doc_meta = [], doc_jsonld = [], doc_select = (\<lambda>sel. [])\<rparr>"

section \<open>The AI content generator (lib/ai: generateCarouselContent)\<close>

text \<open>
  The schemas, as \<^verbatim>\<open>safeParse\<close> decides them. \<^verbatim>\<open>z.string()\<close> accepts every string;
  \<^verbatim>\<open>z.object\<close> accepts an object that has the listed keys with accepted values (other
  keys are dropped); \<^verbatim>\<open>z.array(s).min(n).max(n)\<close> accepts an array whose elements are all
  accepted and whose length is at least and at most \<open>n\<close>.
\<close>

record aiSlide =
  slide_text :: string
  imageQuery :: string

definition aiSlideSchema :: "jsval \<Rightarrow> aiSlide option" where
  "aiSlideSchema v =
     (case v of
        JObj kvs \<Rightarrow>
          (case (map_of kvs ''text'', map_of kvs ''imageQuery'') of
             (Some (JStr t), Some (JStr q)) \<Rightarrow> Some \<lparr>slide_text = t, imageQuery = q\<rparr>
           | _ \<Rightarrow> None)
      | _ \<Rightarrow> None)"

text \<open>All elements parsed, or \<open>None\<close> when one of them is rejected.\<close>

fun parseAll :: "('a \<Rightarrow> 'b option) \<Rightarrow> 'a list \<Rightarrow> 'b list option" where
  "parseAll f [] = Some []"
| "parseAll f (x # xs) =
     (case f x of
        None \<Rightarrow> None
      | Some y \<Rightarrow> (case parseAll f xs of None \<Rightarrow> None | Some ys \<Rightarrow> Some (y # ys)))"

definition aiResponseSchema :: "int \<Rightarrow> jsval \<Rightarrow> aiSlide list option" where
  "aiResponseSchema slideCount v =
     (case v of
        JObj kvs \<Rightarrow>
          (case map_of kvs ''slides'' of
             Some (JArr xs) \<Rightarrow>
               (case parseAll aiSlideSchema xs of
                  None \<Rightarrow> None
                | Some slides \<Rightarrow>
                    if int (length xs) \<ge> slideCount \<and> int (length xs) \<le> slideCount
                    then Some slides else None)
           | _ \<Rightarrow> None)
      | _ \<Rightarrow> None)"

text \<open>\<^verbatim>\<open>unsplashImageSchema\<close>: \<^verbatim>\<open>urls.regular\<close> is a string that parses as a URL.\<close>

definition unsplashImageSchema :: "env \<Rightarrow> jsval \<Rightarrow> string option" where
  "unsplashImageSchema e v =
     (case v of
        JObj kvs \<Rightarrow>
          (case map_of kvs ''urls'' of
             Some (JObj us) \<Rightarrow>
               (case map_of us ''regular'' of
                  Some (JStr r) \<Rightarrow> if parse_url e r \<noteq> None then Some r else None
                | _ \<Rightarrow> None)
           | _ \<Rightarrow> None)
      | _ \<Rightarrow> None)"

definition unsplashResponseSchema :: "env \<Rightarrow> jsval \<Rightarrow> string list option" where
  "unsplashResponseSchema e v =
     (case v of
        JObj kvs \<Rightarrow>
          (case map_of kvs ''results'' of
             Some (JArr xs) \<Rightarrow> parseAll (unsplashImageSchema e) xs
           | _ \<Rightarrow> None)
      | _ \<Rightarrow> None)"

text \<open>The three fixed images: no key, no result, and a failed search.\<close>

definition pexels :: "string \<Rightarrow> string" where
  "pexels n = ''https://images.pexels.com/photos/'' @ n @ ''/pexels-photo-'' @ n
                @ ''.jpeg?auto=compress&cs=tinysrgb&w=1260&h=750&dpr=2''"

definition placeholder_no_key :: string where
  "placeholder_no_key = pexels ''3184418''"

definition fallback_no_results :: string where
  "fallback_no_results = pexels ''3183197''"

definition fallback_on_error :: string where
  "fallback_on_error = pexels ''3184339''"

text \<open>
  \<^verbatim>\<open>fetchImageForQuery\<close>, started at time \<open>t\<close>: the image URL it resolves with and the time it
  takes. Everything that can throw is inside its \<^verbatim>\<open>try\<close>, whose \<^verbatim>\<open>catch\<close> returns the fallback.
  It reads and writes no state of the module.
\<close>

definition fetchImageForQuery :: "env \<Rightarrow> int \<Rightarrow> string \<Rightarrow> string \<times> int" where
  "fetchImageForQuery e t q =
     (case keyOf (UNSPLASH_ACCESS_KEY e) of
        None \<Rightarrow> (placeholder_no_key, 0)
      | Some key \<Rightarrow>
          (case unsplash_json e t
                  (''https://api.unsplash.com/search/photos?query='' @ encodeURIComponent e q
                     @ ''&per_page=1&client_id='' @ key) of
             (JsonRejected err, dt) \<Rightarrow> (fallback_on_error, dt)
           | (JsonResponse ok statusText txt js, dt) \<Rightarrow>
               if \<not> ok then (fallback_on_error, dt)
               else (case js of
                       Inl err \<Rightarrow> (fallback_on_error, dt)
                     | Inr d \<Rightarrow>
                         (case unsplashResponseSchema e d of
                            Some (first # others) \<Rightarrow> (first, dt)
                          | _ \<Rightarrow> (fallback_no_results, dt)))))"

text \<open>
  The errors of \<^verbatim>\<open>generateCarouselContent\<close>: no key for the model; a reply that is not ok
  (model, status text, body); the reply does not match the schema; a \<^verbatim>\<open>TypeError\<close> or a
  \<^verbatim>\<open>SyntaxError\<close> while the content is taken out of the reply; and whatever \<^verbatim>\<open>fetch\<close>,
  \<^verbatim>\<open>response.text()\<close> or \<^verbatim>\<open>response.json()\<close> threw.
\<close>

datatype gen_error =
    KeyNotFound string
  | ApiError string string string
  | FormatMismatch
  | RuntimeTypeError
  | RuntimeSyntaxError
  | Rethrown thrown

text \<open>\<^verbatim>\<open>getApiConfig\<close> answers \<^verbatim>\<open>null\<close> unless the model is known and its key is set.\<close>

definition hasApiConfig :: "env \<Rightarrow> string \<Rightarrow> bool" where
  "hasApiConfig e model \<longleftrightarrow>
     (if model = ''OpenAI'' then keyOf (OPENAI_API_KEY e) \<noteq> None
      else if model = ''Groq'' then keyOf (GROQ_API_KEY e) \<noteq> None
      else if model = ''Gemini'' then keyOf (GEMINI_API_KEY e) \<noteq> None
      else False)"

text \<open>
  Reading \<^verbatim>\<open>v.k\<close> and \<^verbatim>\<open>v[0]\<close>; \<open>None\<close> is the \<^verbatim>\<open>TypeError\<close> for \<^verbatim>\<open>null\<close> and \<^verbatim>\<open>undefined\<close>.
\<close>

definition readProp :: "jsval \<Rightarrow> string \<Rightarrow> jsval option" where
  "readProp v k = (if v = JNull \<or> v = JUndefined then None else Some (getProp v k))"

definition index0 :: "jsval \<Rightarrow> jsval option" where
  "index0 v =
     (case v of
        JNull \<Rightarrow> None
      | JUndefined \<Rightarrow> None
      | JArr xs \<Rightarrow> Some (case xs of [] \<Rightarrow> JUndefined | x # _ \<Rightarrow> x)
      | JStr s \<Rightarrow> Some (case s of [] \<Rightarrow> JUndefined | c # _ \<Rightarrow> JStr [c])
      | JObj kvs \<Rightarrow> Some (case map_of kvs ''0'' of None \<Rightarrow> JUndefined | Some x \<Rightarrow> x)
      | _ \<Rightarrow> Some JUndefined)"

text \<open>The text of the completion: the path depends on the provider.\<close>

definition completionText :: "string \<Rightarrow> jsval \<Rightarrow> jsval option" where
  "completionText model json =
     (if model = ''Gemini''
      then Option.bind (Option.bind (Option.bind (Option.bind (Option.bind (readProp json ''candidates'') index0)
             (\<lambda>v. readProp v ''content'')) (\<lambda>v. readProp v ''parts'')) index0) (\<lambda>v. readProp v ''text'')
      else Option.bind (Option.bind (Option.bind (readProp json ''choices'') index0)
             (\<lambda>v. readProp v ''message'')) (\<lambda>v. readProp v ''content''))"

text \<open>\<^verbatim>\<open>JSON.parse(x)\<close> converts \<open>x\<close> to a string first.\<close>

definition parseContent :: "env \<Rightarrow> jsval \<Rightarrow> jsval option" where
  "parseContent e x = JSON_parse e (case x of JStr s \<Rightarrow> s | _ \<Rightarrow> js_toString e x)"

record slideWithImage =
  slide_id :: int
  text_of :: string
  imageUrl :: string

text \<open>
  \<^verbatim>\<open>Promise.all(generatedSlides.map(async (slide, index) => ...))\<close>: the callbacks all start
  their lookup at the same time, one for each slide in order, and the whole takes as long as
  the slowest.
\<close>

definition slidesWithImages :: "env \<Rightarrow> int \<Rightarrow> aiSlide list \<Rightarrow> slideWithImage list" where
  "slidesWithImages e t slides =
     map (\<lambda>(index, slide).
            \<lparr>slide_id = int index + 1, text_of = slide_text slide,
             imageUrl = fst (fetchImageForQuery e t (imageQuery slide))\<rparr>)
         (enumerate 0 slides)"

definition lookupsTime :: "env \<Rightarrow> int \<Rightarrow> aiSlide list \<Rightarrow> int" where
  "lookupsTime e t slides =
     fold max (map (\<lambda>slide. snd (fetchImageForQuery e t (imageQuery slide))) slides) 0"

text \<open>\<^verbatim>\<open>generateCarouselContent(carouselTheme, model, slideCount = 5)\<close>\<close>

definition generateCarouselContent ::
  "env \<Rightarrow> string \<Rightarrow> string \<Rightarrow> int \<Rightarrow> world \<Rightarrow> (gen_error + slideWithImage list) \<times> world" where
  "generateCarouselContent e carouselTheme model slideCount w =
     (if \<not> hasApiConfig e model then (Inl (KeyNotFound model), w)
      else (case ai_post e (clock w) model carouselTheme slideCount of
              (JsonRejected err, dt) \<Rightarrow> (Inl (Rethrown err), w\<lparr>clock := clock w + dt\<rparr>)
            | (JsonResponse ok statusText txt js, dt) \<Rightarrow>
                (let w1 = w\<lparr>clock := clock w + dt\<rparr>
                 in if \<not> ok
                    then (case txt of
                            Inl err \<Rightarrow> (Inl (Rethrown err), w1)
                          | Inr errorBody \<Rightarrow> (Inl (ApiError model statusText errorBody), w1))
                    else (case js of
                            Inl err \<Rightarrow> (Inl (Rethrown err), w1)
                          | Inr json \<Rightarrow>
                              (case completionText model json of
                                 None \<Rightarrow> (Inl RuntimeTypeError, w1)
                               | Some x \<Rightarrow>
                                   (case parseContent e x of
                                      None \<Rightarrow> (Inl RuntimeSyntaxError, w1)
                                    | Some content \<Rightarrow>
                                        (case aiResponseSchema slideCount content of
                                           None \<Rightarrow> (Inl FormatMismatch, w1)
                                         | Some generatedSlides \<Rightarrow>
                                             (Inr (slidesWithImages e (clock w1) generatedSlides),
                                              w1\<lparr>clock := clock w1 + lookupsTime e (clock w1) generatedSlides,
                                                 image_queries := image_queries w1 @ map imageQuery generatedSlides\<rparr>))))))))"

text \<open>
  The shape the reply must have, in the words of the specification less the requirement
  that the strings be non-empty: an object whose \<^verbatim>\<open>slides\<close> is an array of exactly
  \<open>slideCount\<close> objects, each with a string \<^verbatim>\<open>text\<close> and a string \<^verbatim>\<open>imageQuery\<close>.
\<close>

definition spec_exact_slides :: "int \<Rightarrow> jsval \<Rightarrow> bool" where
  "spec_exact_slides slideCount content \<longleftrightarrow>
     (\<exists>kvs xs. content = JObj kvs \<and> map_of kvs ''slides'' = Some (JArr xs) \<and>
        int (length xs) = slideCount \<and>
        (\<forall>x \<in> set xs. \<exists>ps t q. x = JObj ps \<and> map_of ps ''text'' = Some (JStr t) \<and>
                                map_of ps ''imageQuery'' = Some (JStr q)))"



text \<open>
  Environments for examples: a provider whose completion is the JSON text of the given
  content, with an OpenAI key set; without a stock-photo key, and with one while every
  search is refused.
\<close>

definition env_ai :: "jsval \<Rightarrow> env" where
  "env_ai content =
     env_down\<lparr>OPENAI_API_KEY := Some ''sk-test'',
              ai_post := (\<lambda>t m th n. (JsonResponse True ''OK'' (Inr [])
                 (Inr (JObj [(''choices'',
                         JArr [JObj [(''message'', JObj [(''content'', JStr ''completion'')])]])])), 7)),
              JSON_parse := (\<lambda>s. if s = ''completion'' then Some content else None)\<rparr>"

definition one_empty_slide :: jsval where
  "one_empty_slide = JObj [(''slides'', JArr [JObj [(''text'', JStr []), (''imageQuery'', JStr [])]])]"

definition slide_json :: "string \<Rightarrow> string \<Rightarrow> jsval" where
  "slide_json t q = JObj [(''text'', JStr t), (''imageQuery'', JStr q)]"

definition four_slides :: jsval where
  "four_slides =
     JObj [(''slides'', JArr [slide_json ''a'' ''one'', slide_json ''b'' ''two'',
                              slide_json ''c'' ''three'', slide_json ''d'' ''four''])]"

text \<open>
  With a stock-photo key: the search for \<open>two\<close> is refused, the search for \<open>three\<close> finds
  nothing, and every other search finds a photo.
\<close>

definition env_ai_search :: env where
  "env_ai_search =
     (env_ai four_slides)
       \<lparr>UNSPLASH_ACCESS_KEY := Some ''k'',
        parse_url := (\<lambda>s. Some \<lparr>protocol = ''https:'', host = ''images.unsplash.com''\<rparr>),
        unsplash_json := (\<lambda>t u.
          if u = ''https://api.unsplash.com/search/photos?query=two&per_page=1&client_id=k''
          then (JsonRejected (ErrorObj ''Failed to fetch''), 3)
          else if u = ''https://api.unsplash.com/search/photos?query=three&per_page=1&client_id=k''
          then (JsonResponse True ''OK'' (Inr []) (Inr (JObj [(''results'', JArr [])])), 2)
          else (JsonResponse True ''OK'' (Inr [])
                  (Inr (JObj [(''results'',
                     JArr [JObj [(''urls'', JObj [(''regular'', JStr ''https://images.unsplash.com/photo-9'')])]])])),
                4))\<rparr>"

section \<open>Properties of strings\<close>

lemma startsWith_iff: "startsWith s p \<longleftrightarrow> (\<exists>r. s = p @ r)"
  by (induction s p rule: startsWith.induct) auto

lemma includes_iff: "includesStr s sub \<longleftrightarrow> (\<exists>a b. s = a @ sub @ b)"
proof (induction s)
  case Nil
  then show ?case by auto
next
  case (Cons c cs)
  show ?case
  proof
    assume "includesStr (c # cs) sub"
    then consider "startsWith (c # cs) sub" | "includesStr cs sub" by auto
    then show "\<exists>a b. c # cs = a @ sub @ b"
    proof cases
      case 1
      then obtain r where "c # cs = sub @ r" by (auto simp: startsWith_iff)
      then have "c # cs = [] @ sub @ r" by simp
      then show ?thesis by blast
    next
      case 2
      then obtain a b where "cs = a @ sub @ b" using Cons.IH by auto
      then have "c # cs = (c # a) @ sub @ b" by simp
      then show ?thesis by blast
    qed
  next
    assume "\<exists>a b. c # cs = a @ sub @ b"
    then obtain a b where ab: "c # cs = a @ sub @ b" by auto
    show "includesStr (c # cs) sub"
    proof (cases a)
      case Nil
      with ab have "startsWith (c # cs) sub" by (auto simp: startsWith_iff)
      then show ?thesis by simp
    next
      case (Cons x a')
      with ab have "cs = a' @ sub @ b" by simp
      then have "includesStr cs sub" using Cons.IH by auto
      then show ?thesis by simp
    qed
  qed
qed

lemma includes_trans: "includesStr s t \<Longrightarrow> includesStr t u \<Longrightarrow> includesStr s u"
proof -
  assume "includesStr s t" and "includesStr t u"
  then obtain a b c d where "s = a @ t @ b" and "t = c @ u @ d"
    by (auto simp: includes_iff)
  then have "s = (a @ c) @ u @ (d @ b)" by simp
  then show ?thesis unfolding includes_iff by blast
qed

lemma includes_toLowerCase:
  "includesStr s t \<Longrightarrow> includesStr (toLowerCase s) (toLowerCase t)"
proof -
  assume "includesStr s t"
  then obtain a b where "s = a @ t @ b" by (auto simp: includes_iff)
  then have "toLowerCase s = toLowerCase a @ toLowerCase t @ toLowerCase b"
    by (simp add: toLowerCase_def)
  then show ?thesis unfolding includes_iff by blast
qed

section \<open>Properties of the quality filter\<close>

lemma toLowerCase_logo_nav: "toLowerCase ''logo-nav.png'' = ''logo-nav.png''"
  by (simp add: toLowerCase_def lowerChar_def)

lemma logo_nav_lower:
  assumes "includesStr s ''logo-nav.png''"
  shows "includesStr (toLowerCase s) ''logo-'' \<and> includesStr (toLowerCase s) ''logo''"
proof -
  have low: "includesStr (toLowerCase s) ''logo-nav.png''"
    using includes_toLowerCase [OF assms] by (simp only: toLowerCase_logo_nav)
  have "includesStr ''logo-nav.png'' ''logo-''" and "includesStr ''logo-nav.png'' ''logo''"
    by simp_all
  with low show ?thesis by (blast intro: includes_trans)
qed

lemma hook_keyword_rejects:
  "kw \<in> set lowQualityKeywords_hook \<Longrightarrow> includesStr (toLowerCase (src img)) kw \<Longrightarrow>
   \<not> isQualityImage_hook img"
  by (auto simp: isQualityImage_hook_def Let_def filter_empty_conv)

lemma service_keyword_rejects:
  "kw \<in> set lowQualityKeywords \<Longrightarrow> includesStr (toLowerCase (src img)) kw \<Longrightarrow>
   \<not> isQualityImage img minWidth minHeight"
  by (auto simp: isQualityImage_def Let_def list_ex_iff)

lemma hook_verdict:
  "isQualityImage_hook img \<longleftrightarrow>
     (\<exists>ext \<in> set qualityFormats. includesStr (toLowerCase (src img)) ext) \<and>
     (\<forall>kw \<in> set lowQualityKeywords_hook.
        \<not> includesStr (toLowerCase (src img)) kw \<and> \<not> includesStr (toLowerCase (alt img)) kw) \<and>
     meetsSize (width img) (height img) 300 200"
  by (auto simp: isQualityImage_hook_def Let_def filter_empty_conv list_ex_iff)

lemma service_verdict:
  "isQualityImage img minWidth minHeight \<longleftrightarrow>
     (\<exists>ext \<in> set qualityFormats. includesStr (toLowerCase (src img)) ext) \<and>
     (\<forall>kw \<in> set lowQualityKeywords.
        \<not> includesStr (toLowerCase (src img)) kw \<and> \<not> includesStr (toLowerCase (alt img)) kw) \<and>
     meetsSize (width img) (height img) minWidth minHeight"
  by (auto simp: isQualityImage_def Let_def list_ex_iff)

text \<open>
  C8: both quality filters (the hook's and the image service's, the latter at the default
  thresholds 300 and 200) reject every candidate whose \<open>src\<close> contains \<open>logo-nav.png\<close>,
  whatever its dimensions; accept a candidate of exactly 300 by 200 whose URL contains \<open>.png\<close>
  and whose URL and alt text contain no denylisted substring (containment is judged on the
  lower-cased strings, as the filters do); reject a candidate of 299 by 200; and a candidate
  with a missing dimension passes the size check, so that format and denylist alone decide.
\<close>

theorem C8_quality_filter:
  "(includesStr (src img) ''logo-nav.png'' \<longrightarrow>
      \<not> isQualityImage_hook img \<and> \<not> isQualityImage img minWidth minHeight) \<and>
   (width img = Some 300 \<and> height img = Some 200 \<and>
    includesStr (toLowerCase (src img)) ''.png'' \<and>
    (\<forall>kw \<in> set lowQualityKeywords_hook.
       \<not> includesStr (toLowerCase (src img)) kw \<and> \<not> includesStr (toLowerCase (alt img)) kw)
      \<longrightarrow> isQualityImage_hook img) \<and>
   (width img = Some 300 \<and> height img = Some 200 \<and>
    includesStr (toLowerCase (src img)) ''.png'' \<and>
    (\<forall>kw \<in> set lowQualityKeywords.
       \<not> includesStr (toLowerCase (src img)) kw \<and> \<not> includesStr (toLowerCase (alt img)) kw)
      \<longrightarrow> isQualityImage img 300 200) \<and>
   (width img = Some 299 \<and> height img = Some 200 \<longrightarrow>
      \<not> isQualityImage_hook img \<and> \<not> isQualityImage img 300 200) \<and>
   (width img = None \<or> height img = None \<longrightarrow>
      meetsSize (width img) (height img) minWidth minHeight \<and>
      (isQualityImage_hook img \<longleftrightarrow>
         (\<exists>ext \<in> set qualityFormats. includesStr (toLowerCase (src img)) ext) \<and>
         (\<forall>kw \<in> set lowQualityKeywords_hook.
            \<not> includesStr (toLowerCase (src img)) kw \<and> \<not> includesStr (toLowerCase (alt img)) kw)) \<and>
      (isQualityImage img minWidth minHeight \<longleftrightarrow>
         (\<exists>ext \<in> set qualityFormats. includesStr (toLowerCase (src img)) ext) \<and>
         (\<forall>kw \<in> set lowQualityKeywords.
            \<not> includesStr (toLowerCase (src img)) kw \<and> \<not> includesStr (toLowerCase (alt img)) kw)))"
proof (intro conjI impI)
  assume "includesStr (src img) ''logo-nav.png''"
  then have l: "includesStr (toLowerCase (src img)) ''logo-''"
    and l': "includesStr (toLowerCase (src img)) ''logo''"
    using logo_nav_lower by blast+
  have "''logo-'' \<in> set lowQualityKeywords_hook"
    by (simp add: lowQualityKeywords_hook_def)
  then show "\<not> isQualityImage_hook img"
    using l by (rule hook_keyword_rejects)
  have "''logo'' \<in> set lowQualityKeywords"
    by (simp add: lowQualityKeywords_def)
  then show "\<not> isQualityImage img minWidth minHeight"
    using l' by (rule service_keyword_rejects)
next
  assume "width img = Some 300 \<and> height img = Some 200 \<and>
    includesStr (toLowerCase (src img)) ''.png'' \<and>
    (\<forall>kw \<in> set lowQualityKeywords_hook.
       \<not> includesStr (toLowerCase (src img)) kw \<and> \<not> includesStr (toLowerCase (alt img)) kw)"
  then show "isQualityImage_hook img"
    unfolding hook_verdict by (simp add: meetsSize_def truthyNum_def qualityFormats_def)
next
  assume "width img = Some 300 \<and> height img = Some 200 \<and>
    includesStr (toLowerCase (src img)) ''.png'' \<and>
    (\<forall>kw \<in> set lowQualityKeywords.
       \<not> includesStr (toLowerCase (src img)) kw \<and> \<not> includesStr (toLowerCase (alt img)) kw)"
  then show "isQualityImage img 300 200"
    unfolding service_verdict by (simp add: meetsSize_def truthyNum_def qualityFormats_def)
next
  assume d: "width img = Some 299 \<and> height img = Some 200"
  then show "\<not> isQualityImage_hook img"
    unfolding hook_verdict by (simp add: meetsSize_def truthyNum_def)
  from d show "\<not> isQualityImage img 300 200"
    unfolding service_verdict by (simp add: meetsSize_def truthyNum_def)
next
  assume d: "width img = None \<or> height img = None"
  then show m: "meetsSize (width img) (height img) minWidth minHeight"
    by (auto simp: meetsSize_def truthyNum_def)
  from d have "meetsSize (width img) (height img) 300 200"
    by (auto simp: meetsSize_def truthyNum_def)
  then show "isQualityImage_hook img \<longleftrightarrow>
         (\<exists>ext \<in> set qualityFormats. includesStr (toLowerCase (src img)) ext) \<and>
         (\<forall>kw \<in> set lowQualityKeywords_hook.
            \<not> includesStr (toLowerCase (src img)) kw \<and> \<not> includesStr (toLowerCase (alt img)) kw)"
    unfolding hook_verdict by simp
  from m show "isQualityImage img minWidth minHeight \<longleftrightarrow>
         (\<exists>ext \<in> set qualityFormats. includesStr (toLowerCase (src img)) ext) \<and>
         (\<forall>kw \<in> set lowQualityKeywords.
            \<not> includesStr (toLowerCase (src img)) kw \<and> \<not> includesStr (toLowerCase (alt img)) kw)"
    unfolding service_verdict by simp
qed

theorem C8_quality_filter_witness:
  "\<not> isQualityImage_hook \<lparr>src = ''https://cdn.site.com/img/logo-nav.png'', alt = ''Site'',
        width = Some 1200, height = Some 800\<rparr> \<and>
   \<not> isQualityImage \<lparr>src = ''https://cdn.site.com/img/logo-nav.png'', alt = ''Site'',
        width = Some 1200, height = Some 800\<rparr> 300 200 \<and>
   isQualityImage_hook \<lparr>src = ''https://site.com/photos/beach.png'', alt = ''Beach at dawn'',
        width = Some 300, height = Some 200\<rparr> \<and>
   isQualityImage \<lparr>src = ''https://site.com/photos/beach.png'', alt = ''Beach at dawn'',
        width = Some 300, height = Some 200\<rparr> 300 200 \<and>
   \<not> isQualityImage_hook \<lparr>src = ''https://site.com/photos/beach.png'', alt = ''Beach at dawn'',
        width = Some 299, height = Some 200\<rparr> \<and>
   meetsSize None (Some 200) 300 200"
proof -
  let ?logo = "\<lparr>src = ''https://cdn.site.com/img/logo-nav.png'', alt = ''Site'',
        width = Some 1200, height = Some 800\<rparr>"
  let ?ok = "\<lparr>src = ''https://site.com/photos/beach.png'', alt = ''Beach at dawn'',
        width = Some 300, height = Some 200\<rparr>"
  let ?small = "\<lparr>src = ''https://site.com/photos/beach.png'', alt = ''Beach at dawn'',
        width = Some 299, height = Some 200\<rparr>"
  let ?nodim = "\<lparr>src = ''https://site.com/photos/beach.png'', alt = ''Beach at dawn'',
        width = None, height = Some 200\<rparr>"
  have a: "includesStr (src ?logo) ''logo-nav.png''"
    by simp
  have b: "includesStr (toLowerCase (src ?ok)) ''.png''"
    by (simp add: toLowerCase_def lowerChar_def)
  have c: "\<forall>kw \<in> set lowQualityKeywords_hook.
       \<not> includesStr (toLowerCase (src ?ok)) kw \<and> \<not> includesStr (toLowerCase (alt ?ok)) kw"
    by (simp add: lowQualityKeywords_hook_def toLowerCase_def lowerChar_def)
  have d: "\<forall>kw \<in> set lowQualityKeywords.
       \<not> includesStr (toLowerCase (src ?ok)) kw \<and> \<not> includesStr (toLowerCase (alt ?ok)) kw"
    by (simp add: lowQualityKeywords_def toLowerCase_def lowerChar_def)
  have w: "width ?ok = Some 300 \<and> height ?ok = Some 200"
    and w': "width ?small = Some 299 \<and> height ?small = Some 200"
    and w'': "width ?nodim = None \<or> height ?nodim = None"
    by simp_all
  from C8_quality_filter [of ?logo 300 200] a
  have 1: "\<not> isQualityImage_hook ?logo \<and> \<not> isQualityImage ?logo 300 200" by blast
  from C8_quality_filter [of ?ok 300 200] b c d w
  have 2: "isQualityImage_hook ?ok \<and> isQualityImage ?ok 300 200" by blast
  from C8_quality_filter [of ?small 300 200] w'
  have 3: "\<not> isQualityImage_hook ?small" by blast
  from C8_quality_filter [of ?nodim 300 200] w''
  have "meetsSize (width ?nodim) (height ?nodim) 300 200" by blast
  then have 4: "meetsSize None (Some 200) 300 200" by simp
  from 1 2 3 4 show ?thesis by blast
qed

section \<open>Properties of the cache\<close>

lemma get_cache_size_le: "size_cache (snd (get_cache now key c)) \<le> size_cache c"
  by (auto simp: get_cache_def size_cache_def fcard_fminus1_le split: option.splits)

lemma fcard_fmdrop_less:
  "fmlookup m k = Some e \<Longrightarrow> fcard (fmdom (fmdrop k m)) < fcard (fmdom m)"
proof -
  assume "fmlookup m k = Some e"
  then have "k |\<in>| fmdom m" by (rule fmdomI)
  then have "fcard (fmdom m |-| {|k|}) < fcard (fmdom m)" by (rule fcard_fminus1_less)
  then show ?thesis by simp
qed

text \<open>
  C5, as stated, at ttl \<open>0\<close>: the entry is stored with the default TTL of five minutes, and
  a read one millisecond past \<open>storedAt + 0\<close> is a hit.
\<close>

theorem C5_zero_ttl_read_after_expiry_hits:
  "(1::int) > 0 + 0 \<and>
   fst (get_cache 1 ''k'' (set_cache 0 ''k'' ''v'' (Some 0) (SimpleCache None))) = Some ''v''"
  by (simp add: get_cache_def set_cache_def SimpleCache_def)

text \<open>
  C5, amended: for every key, value and ttl \<open>t\<close> other than \<open>0\<close>, after \<open>set(k, v, t)\<close> at time
  \<open>now\<close> a \<open>get(k)\<close> before \<open>t\<close> has elapsed returns \<open>v\<close> and leaves the store as it is; a
  \<open>get(k)\<close> past \<open>now + t\<close> returns a miss and deletes the entry, so the store shrinks, and
  reading the key again is a miss that leaves the store unchanged.
\<close>

theorem C5_set_get_ttl:
  assumes "t \<noteq> 0"
  shows "(now' - now < t \<longrightarrow>
            get_cache now' k (set_cache now k v (Some t) c) = (Some v, set_cache now k v (Some t) c)) \<and>
         (now' - now > t \<longrightarrow>
            fst (get_cache now' k (set_cache now k v (Some t) c)) = None \<and>
            fmlookup (cache (snd (get_cache now' k (set_cache now k v (Some t) c)))) k = None \<and>
            size_cache (snd (get_cache now' k (set_cache now k v (Some t) c)))
              < size_cache (set_cache now k v (Some t) c) \<and>
            (\<forall>now''. get_cache now'' k (snd (get_cache now' k (set_cache now k v (Some t) c)))
               = (None, snd (get_cache now' k (set_cache now k v (Some t) c)))))"
proof (intro conjI impI)
  let ?c = "set_cache now k v (Some t) c"
  have look: "fmlookup (cache ?c) k = Some \<lparr>data = v, timestamp = now, expiry = t\<rparr>"
    using assms by (simp add: set_cache_def)
  {
    assume "now' - now < t"
    then show "get_cache now' k ?c = (Some v, ?c)"
      using look by (simp add: get_cache_def)
  }
  assume past: "now' - now > t"
  have res: "get_cache now' k ?c = (None, ?c\<lparr>cache := fmdrop k (cache ?c)\<rparr>)"
    using look past by (simp add: get_cache_def)
  show "fst (get_cache now' k ?c) = None"
    by (simp add: res)
  show "fmlookup (cache (snd (get_cache now' k ?c))) k = None"
    by (simp add: res)
  show "size_cache (snd (get_cache now' k ?c)) < size_cache ?c"
    using fcard_fmdrop_less [OF look] by (simp add: res size_cache_def)
  show "\<forall>now''. get_cache now'' k (snd (get_cache now' k ?c)) = (None, snd (get_cache now' k ?c))"
    unfolding res by (simp add: get_cache_def)
qed

theorem C5_set_get_ttl_witness:
  "get_cache 5 ''k'' (set_cache 0 ''k'' ''v'' (Some 10) (SimpleCache None))
     = (Some ''v'', set_cache 0 ''k'' ''v'' (Some 10) (SimpleCache None)) \<and>
   fst (get_cache 11 ''k'' (set_cache 0 ''k'' ''v'' (Some 10) (SimpleCache None))) = None"
  using C5_set_get_ttl [of 10 5 0 "''k''" "''v''" "SimpleCache None"]
        C5_set_get_ttl [of 10 11 0 "''k''" "''v''" "SimpleCache None"]
  by simp

text \<open>
  C10, as stated: a negative ttl is truthy, so it is stored as given, and the entry reads as
  a miss at the very millisecond it was stored.
\<close>

theorem C10_negative_ttl_immediate_miss:
  "fst (get_cache 0 ''k'' (set_cache 0 ''k'' ''v'' (Some (- 1)) (SimpleCache None))) = None"
  by (simp add: get_cache_def set_cache_def SimpleCache_def)

text \<open>
  C10, amended: \<open>set\<close> treats the ttl \<open>0\<close> as absent: \<open>set(k, v, 0)\<close> stores the entry with the
  instance's default TTL, exactly as \<open>set(k, v)\<close> does; and when the ttl given (or, for an
  absent or zero ttl, the default TTL) is not negative, the entry read at the moment it was
  stored is a hit.
\<close>

theorem C10_falsy_ttl_is_default:
  "set_cache now k v (Some 0) c = set_cache now k v None c \<and>
   map_option expiry (fmlookup (cache (set_cache now k v (Some 0) c)) k) = Some (defaultTTL c) \<and>
   ((case ttl of None \<Rightarrow> 0 \<le> defaultTTL c
     | Some t \<Rightarrow> if t = 0 then 0 \<le> defaultTTL c else 0 \<le> t) \<longrightarrow>
    fst (get_cache now k (set_cache now k v ttl c)) = Some v)"
  by (auto simp: set_cache_def get_cache_def split: option.splits)

theorem C10_falsy_ttl_is_default_witness:
  "fst (get_cache 7 ''k'' (set_cache 7 ''k'' ''v'' (Some 0) (SimpleCache (Some 600000)))) = Some ''v''"
proof -
  have "0 \<le> defaultTTL (SimpleCache (Some 600000) :: string simpleCache)"
    by (simp add: SimpleCache_def)
  with C10_falsy_ttl_is_default [of 7 "''k''" "''v''" "SimpleCache (Some 600000)" "Some 0",
      THEN conjunct2, THEN conjunct2]
  show ?thesis by simp
qed

section \<open>Properties of the relay chain\<close>

lemma attempt_accepted: "attempt e service resp = Inr v \<Longrightarrow> accepted e v"
  by (auto simp: attempt_def accepted_def split: http_response.splits sum.splits if_splits)

lemma accepted_JStr: "accepted e (JStr b) \<longleftrightarrow> length b > 100"
  by (auto simp: accepted_def lengthOf_def gt100_def)

lemma retryLoop_None:
  "retryLoop e s t M r le w = (None, le', w') \<Longrightarrow>
   \<exists>evs. console w' = console w @ evs \<and> map ev_key evs = map (Pair (name s)) [r..M - 1] \<and>
         (\<forall>ev \<in> set evs. is_failure ev) \<and>
         le' = (if evs = [] then le
                else Some (fst (ev_key (last evs)) @ '': '' @ failure_text (last evs))) \<and>
         htmlCache w' = htmlCache w"
proof (induction e s t M r le w rule: retryLoop.induct)
  case (1 e service target maxRetries retry lastError w)
  show ?case
  proof (cases "retry < maxRetries")
    case False
    with "1.prems" show ?thesis by (simp add: retryLoop.simps)
  next
    case True
    obtain resp dt where g: "http_get e (clock w) (url_of service target) = (resp, dt)"
      by (cases "http_get e (clock w) (url_of service target)")
    show ?thesis
    proof (cases "attempt e service resp")
      case (Inr v)
      with True g "1.prems" show ?thesis by (simp add: retryLoop.simps)
    next
      case (Inl msg)
      let ?w1 = "w\<lparr>clock := (if retry < maxRetries - 1
                                  then clock w + dt + (2 ^ nat retry * 1000 + random_ms e (clock w + dt))
                                  else clock w + dt),
                       console := console w @ [Falha (name service) retry msg]\<rparr>"
      from True g Inl "1.prems"
      have rec: "retryLoop e service target maxRetries (retry + 1) (Some (name service @ '': '' @ msg)) ?w1 = (None, le', w')"
        by (simp add: retryLoop.simps [of e service target maxRetries retry])
      from "1.IH" [OF True g [symmetric] Inl rec]
      obtain evs where evs: "console w' = console ?w1 @ evs"
        "map ev_key evs = map (Pair (name service)) [retry + 1..maxRetries - 1]"
        "\<forall>ev \<in> set evs. is_failure ev"
        "le' = (if evs = [] then Some (name service @ '': '' @ msg)
                else Some (fst (ev_key (last evs)) @ '': '' @ failure_text (last evs)))"
        "htmlCache w' = htmlCache ?w1"
        by blast
      have up: "[retry..maxRetries - 1] = retry # [retry + 1..maxRetries - 1]"
        using True by (simp add: upto_rec1)
      let ?evs = "Falha (name service) retry msg # evs"
      have "console w' = console w @ ?evs" using evs(1) by simp
      moreover have "map ev_key ?evs = map (Pair (name service)) [retry..maxRetries - 1]"
        using evs(2) up by simp
      moreover have "\<forall>ev \<in> set ?evs. is_failure ev" using evs(3) by simp
      moreover have "le' = (if ?evs = [] then lastError
                else Some (fst (ev_key (last ?evs)) @ '': '' @ failure_text (last ?evs)))"
        using evs(4) by simp
      moreover have "htmlCache w' = htmlCache w" using evs(5) by simp
      ultimately show ?thesis by blast
    qed
  qed
qed

lemma retryLoop_Some:
  "retryLoop e s t M r le w = (Some v, le', w') \<Longrightarrow>
   \<exists>evs k tm. console w' = console w @ evs @ [Sucesso (name s) k] \<and>
         (\<forall>ev \<in> set evs. is_failure ev) \<and> accepted e v \<and>
         htmlCache w' = set_cache tm t v None (htmlCache w)"
proof (induction e s t M r le w rule: retryLoop.induct)
  case (1 e service target maxRetries retry lastError w)
  show ?case
  proof (cases "retry < maxRetries")
    case False
    with "1.prems" show ?thesis by (simp add: retryLoop.simps)
  next
    case True
    obtain resp dt where g: "http_get e (clock w) (url_of service target) = (resp, dt)"
      by (cases "http_get e (clock w) (url_of service target)")
    show ?thesis
    proof (cases "attempt e service resp")
      case (Inr v')
      with True g "1.prems" have v: "v' = v"
        and w': "w' = w\<lparr>clock := clock w + dt,
                     console := console w @ [Sucesso (name service) retry],
                     htmlCache := set_cache (clock w + dt) target v None (htmlCache w)\<rparr>"
        by (auto simp: retryLoop.simps [of e service target maxRetries retry])
      have "accepted e v" using Inr v attempt_accepted by blast
      moreover have "console w' = console w @ [] @ [Sucesso (name service) retry]"
        using w' by simp
      moreover have "htmlCache w' = set_cache (clock w + dt) target v None (htmlCache w)"
        using w' by simp
      ultimately show ?thesis by (metis empty_iff list.set(1))
    next
      case (Inl msg)
      let ?w1 = "w\<lparr>clock := (if retry < maxRetries - 1
                                  then clock w + dt + (2 ^ nat retry * 1000 + random_ms e (clock w + dt))
                                  else clock w + dt),
                       console := console w @ [Falha (name service) retry msg]\<rparr>"
      from True g Inl "1.prems"
      have rec: "retryLoop e service target maxRetries (retry + 1) (Some (name service @ '': '' @ msg)) ?w1 = (Some v, le', w')"
        by (simp add: retryLoop.simps [of e service target maxRetries retry])
      from "1.IH" [OF True g [symmetric] Inl rec]
      obtain evs k tm where evs: "console w' = console ?w1 @ evs @ [Sucesso (name service) k]"
        "\<forall>ev \<in> set evs. is_failure ev" "accepted e v"
        "htmlCache w' = set_cache tm target v None (htmlCache ?w1)"
        by blast
      let ?evs = "Falha (name service) retry msg # evs"
      have "console w' = console w @ ?evs @ [Sucesso (name service) k]" using evs(1) by simp
      moreover have "\<forall>ev \<in> set ?evs. is_failure ev" using evs(2) by simp
      moreover have "htmlCache w' = set_cache tm target v None (htmlCache w)" using evs(4) by simp
      ultimately show ?thesis using evs(3) by blast
    qed
  qed
qed

lemma serviceLoop_None:
  "serviceLoop e ss t M le w = (None, le', w') \<Longrightarrow>
   \<exists>evs. console w' = console w @ evs \<and> map ev_key evs = combinations ss M \<and>
         (\<forall>ev \<in> set evs. is_failure ev) \<and>
         le' = (if evs = [] then le
                else Some (fst (ev_key (last evs)) @ '': '' @ failure_text (last evs))) \<and>
         htmlCache w' = htmlCache w"
proof (induction ss arbitrary: le w)
  case Nil
  then show ?case by (simp add: combinations_def)
next
  case (Cons s ss)
  obtain res1 le1 w1 where r1: "retryLoop e s t M 0 le w = (res1, le1, w1)"
    by (cases "retryLoop e s t M 0 le w") auto
  with Cons.prems have none: "res1 = None" and rest: "serviceLoop e ss t M le1 w1 = (None, le', w')"
    by (auto split: option.splits)
  from retryLoop_None [OF r1 [unfolded none]]
  obtain evs1 where e1: "console w1 = console w @ evs1"
    "map ev_key evs1 = map (Pair (name s)) [0..M - 1]"
    "\<forall>ev \<in> set evs1. is_failure ev"
    "le1 = (if evs1 = [] then le
                else Some (fst (ev_key (last evs1)) @ '': '' @ failure_text (last evs1)))"
    "htmlCache w1 = htmlCache w"
    by blast
  from Cons.IH [OF rest]
  obtain evs2 where e2: "console w' = console w1 @ evs2"
    "map ev_key evs2 = combinations ss M"
    "\<forall>ev \<in> set evs2. is_failure ev"
    "le' = (if evs2 = [] then le1
                else Some (fst (ev_key (last evs2)) @ '': '' @ failure_text (last evs2)))"
    "htmlCache w' = htmlCache w1"
    by blast
  let ?evs = "evs1 @ evs2"
  have "console w' = console w @ ?evs" using e1(1) e2(1) by simp
  moreover have "map ev_key ?evs = combinations (s # ss) M"
    using e1(2) e2(2) by (simp add: combinations_def)
  moreover have "\<forall>ev \<in> set ?evs. is_failure ev" using e1(3) e2(3) by auto
  moreover have "le' = (if ?evs = [] then le
                else Some (fst (ev_key (last ?evs)) @ '': '' @ failure_text (last ?evs)))"
    using e1(4) e2(4) by simp
  moreover have "htmlCache w' = htmlCache w" using e1(5) e2(5) by simp
  ultimately show ?case by blast
qed

lemma serviceLoop_Some:
  "serviceLoop e ss t M le w = (Some v, le', w') \<Longrightarrow>
   \<exists>evs n k tm. console w' = console w @ evs @ [Sucesso n k] \<and>
         (\<forall>ev \<in> set evs. is_failure ev) \<and> accepted e v \<and>
         htmlCache w' = set_cache tm t v None (htmlCache w)"
proof (induction ss arbitrary: le w)
  case Nil
  then show ?case by simp
next
  case (Cons s ss)
  obtain res1 le1 w1 where r1: "retryLoop e s t M 0 le w = (res1, le1, w1)"
    by (cases "retryLoop e s t M 0 le w") auto
  show ?case
  proof (cases res1)
    case (Some v1)
    with Cons.prems r1 have "retryLoop e s t M 0 le w = (Some v, le', w')" by auto
    from retryLoop_Some [OF this] show ?thesis by blast
  next
    case None
    with Cons.prems r1 have rest: "serviceLoop e ss t M le1 w1 = (Some v, le', w')" by auto
    from retryLoop_None [OF r1 [unfolded None]]
    obtain evs1 where e1: "console w1 = console w @ evs1"
      "\<forall>ev \<in> set evs1. is_failure ev" "htmlCache w1 = htmlCache w"
      by blast
    from Cons.IH [OF rest]
    obtain evs2 n k tm where e2: "console w' = console w1 @ evs2 @ [Sucesso n k]"
      "\<forall>ev \<in> set evs2. is_failure ev" "accepted e v"
      "htmlCache w' = set_cache tm t v None (htmlCache w1)"
      by blast
    have "console w' = console w @ (evs1 @ evs2) @ [Sucesso n k]" using e1(1) e2(1) by simp
    moreover have "\<forall>ev \<in> set (evs1 @ evs2). is_failure ev" using e1(2) e2(2) by auto
    moreover have "htmlCache w' = set_cache tm t v None (htmlCache w)" using e1(3) e2(4) by simp
    ultimately show ?thesis using e2(3) by blast
  qed
qed

lemma last_upto: "i \<le> j \<Longrightarrow> [i..j] \<noteq> [] \<and> last [i..j] = j"
  by (simp add: upto_rec2)

lemma last_combinations:
  assumes "0 < M"
  shows "combinations (corsProxyServices e) M \<noteq> [] \<and>
         last (combinations (corsProxyServices e) M) = (''ThingProxy'', M - 1)"
proof -
  have "[0..M - 1] \<noteq> [] \<and> last [0..M - 1] = M - 1"
    using assms last_upto [of 0 "M - 1"] by simp
  then show ?thesis
    by (simp add: combinations_def corsProxyServices_def last_map)
qed

lemma short_body_fails:
  "unwrap e service text = Inr (JStr b) \<Longrightarrow> length b < 100 \<Longrightarrow>
   \<exists>m. attempt e service (Response ok status statusText (Inr text)) = Inl m"
  by (simp add: attempt_def lengthOf_def gt100_def)

lemma relay_yields_short:
  "relay_yields e service target t (JStr b) \<Longrightarrow> length b < 100 \<Longrightarrow>
   \<exists>m. attempt e service (fst (http_get e t (url_of service target))) = Inl m"
  unfolding relay_yields_def using short_body_fails by fastforce

lemma relay_yields_long:
  "relay_yields e service target t (JStr b) \<Longrightarrow> length b > 100 \<Longrightarrow>
   attempt e service (fst (http_get e t (url_of service target))) = Inr (JStr b)"
  unfolding relay_yields_def by (auto simp: attempt_def lengthOf_def gt100_def)

lemma retry_all_fail:
  "(\<forall>t. \<exists>m. attempt e s (fst (http_get e t (url_of s target))) = Inl m) \<Longrightarrow>
   fst (retryLoop e s target M r le w) = None"
proof (induction e s target M r le w rule: retryLoop.induct)
  case (1 e service target maxRetries retry lastError w)
  show ?case
  proof (cases "retry < maxRetries")
    case False
    then show ?thesis by (simp add: retryLoop.simps)
  next
    case True
    obtain resp dt where g: "http_get e (clock w) (url_of service target) = (resp, dt)"
      by (cases "http_get e (clock w) (url_of service target)")
    from "1.prems" obtain m where
      "attempt e service (fst (http_get e (clock w) (url_of service target))) = Inl m"
      by blast
    with g have a: "attempt e service resp = Inl m" by simp
    from "1.IH" [OF True g [symmetric] a "1.prems"] True g a
    show ?thesis by (simp add: retryLoop.simps [of e service target maxRetries retry])
  qed
qed

lemma retry_first_success:
  "r < M \<Longrightarrow> attempt e s (fst (http_get e (clock w) (url_of s target))) = Inr v \<Longrightarrow>
   fst (retryLoop e s target M r le w) = Some v"
  by (cases "http_get e (clock w) (url_of s target)") (simp add: retryLoop.simps [of e s target M r])

lemma html_cache_ok_get:
  "html_cache_ok e w \<Longrightarrow> html_cache_ok e (w\<lparr>htmlCache := snd (get_cache t k (htmlCache w))\<rparr>)"
  by (auto simp: html_cache_ok_def get_cache_def split: option.splits if_splits)

lemma html_cache_ok_set:
  "html_cache_ok e w \<Longrightarrow> accepted e v \<Longrightarrow> htmlCache w' = set_cache t k v ttl (htmlCache w) \<Longrightarrow>
   html_cache_ok e w'"
  by (auto simp: html_cache_ok_def set_cache_def Let_def split: if_splits)

lemma get_cache_hit_accepted:
  "html_cache_ok e w \<Longrightarrow> fst (get_cache t k (htmlCache w)) = Some v \<Longrightarrow> accepted e v"
  by (auto simp: html_cache_ok_def get_cache_def split: option.splits if_splits)

lemma fetch_keeps_cache_ok:
  assumes ok: "html_cache_ok e w" and run: "fetchWithCorsProxy e target M w = (r, w')"
  shows "html_cache_ok e w' \<and> (\<forall>v. r = Inr v \<longrightarrow> accepted e v)"
proof -
  obtain cached hc where gc: "get_cache (clock w) target (htmlCache w) = (cached, hc)"
    by (cases "get_cache (clock w) target (htmlCache w)")
  let ?w0 = "w\<lparr>htmlCache := hc\<rparr>"
  have ok0: "html_cache_ok e ?w0"
    using html_cache_ok_get [OF ok, of "clock w" target] gc by simp
  let ?hit = "(case cached of None \<Rightarrow> None | Some v \<Rightarrow> if truthy v then Some v else None)"
  show ?thesis
  proof (cases ?hit)
    case (Some v)
    then have "cached = Some v" by (auto split: option.splits if_splits)
    then have "accepted e v" using get_cache_hit_accepted [OF ok, of "clock w" target v] gc by simp
    moreover from Some run gc have "r = Inr v" and "w' = ?w0"
      by (auto simp: fetchWithCorsProxy_def)
    ultimately show ?thesis using ok0 by simp
  next
    case None
    obtain res le w1 where sl: "serviceLoop e (corsProxyServices e) target M None ?w0 = (res, le, w1)"
      by (cases "serviceLoop e (corsProxyServices e) target M None ?w0") auto
    show ?thesis
    proof (cases res)
      case (Some v)
      with run gc None sl have r: "r = Inr v" and w': "w' = w1"
        by (auto simp: fetchWithCorsProxy_def)
      from serviceLoop_Some [OF sl [unfolded Some]]
      obtain tm where "accepted e v" "htmlCache w1 = set_cache tm target v None (htmlCache ?w0)"
        by auto
      with html_cache_ok_set [OF ok0] r w' show ?thesis by auto
    next
      case none: None
      with run gc None sl have r: "r = Inl (all_failed M le)" and w': "w' = w1"
        by (auto simp: fetchWithCorsProxy_def)
      from serviceLoop_None [OF sl [unfolded none]] have "htmlCache w1 = htmlCache ?w0" by auto
      with ok0 r w' show ?thesis by (simp add: html_cache_ok_def)
    qed
  qed
qed

lemma serviceLoop_second:
  assumes "fst (retryLoop e s1 t M 0 le w) = None"
    and "\<And>w1 le1. fst (retryLoop e s2 t M 0 le1 w1) = Some v"
  shows "fst (serviceLoop e (s1 # s2 # rest) t M le w) = Some v"
proof -
  obtain le1 w1 where r1: "retryLoop e s1 t M 0 le w = (None, le1, w1)"
    using assms(1) by (cases "retryLoop e s1 t M 0 le w") auto
  obtain le2 w2 where r2: "retryLoop e s2 t M 0 le1 w1 = (Some v, le2, w2)"
    using assms(2) [of le1 w1] by (cases "retryLoop e s2 t M 0 le1 w1") auto
  show ?thesis by (simp add: r1 r2)
qed

lemma fetch_result:
  "fmlookup (cache (htmlCache w)) target = None \<Longrightarrow>
   fst (serviceLoop e (corsProxyServices e) target M None w) = Some v \<Longrightarrow>
   fst (fetchWithCorsProxy e target M w) = Inr v"
  by (cases "serviceLoop e (corsProxyServices e) target M None w")
     (auto simp: fetchWithCorsProxy_def get_cache_def)

lemma attempt_Inr_iff:
  "attempt e s (fst (http_get e t (url_of s target))) = Inr v \<longleftrightarrow> relay_accepts e s target t v"
  unfolding relay_accepts_def relay_yields_def accepted_def attempt_def
  by (auto split: http_response.splits sum.splits if_splits)

lemma failed_atI:
  assumes "attempt e s (fst (http_get e t (url_of s target))) = Inl msg"
  shows "failed_at e target (s, k) (Falha (name s) k msg)"
proof -
  have "\<not> relay_accepts e s target t v" for v
    using assms attempt_Inr_iff [of e s t target v] by simp
  with assms show ?thesis unfolding failed_at_def by auto
qed

lemma retryLoop_None_failed:
  "retryLoop e s t M r le w = (None, le', w') \<Longrightarrow>
   \<exists>evs. console w' = console w @ evs \<and> list_all2 (failed_at e t) (map (Pair s) [r..M - 1]) evs"
proof (induction e s t M r le w rule: retryLoop.induct)
  case (1 e service target maxRetries retry lastError w)
  show ?case
  proof (cases "retry < maxRetries")
    case False
    with "1.prems" show ?thesis by (simp add: retryLoop.simps)
  next
    case True
    obtain resp dt where g: "http_get e (clock w) (url_of service target) = (resp, dt)"
      by (cases "http_get e (clock w) (url_of service target)")
    show ?thesis
    proof (cases "attempt e service resp")
      case (Inr v)
      with True g "1.prems" show ?thesis by (simp add: retryLoop.simps)
    next
      case (Inl msg)
      let ?w1 = "w\<lparr>clock := (if retry < maxRetries - 1
                                  then clock w + dt + (2 ^ nat retry * 1000 + random_ms e (clock w + dt))
                                  else clock w + dt),
                       console := console w @ [Falha (name service) retry msg]\<rparr>"
      from True g Inl "1.prems"
      have rec: "retryLoop e service target maxRetries (retry + 1) (Some (name service @ '': '' @ msg)) ?w1 = (None, le', w')"
        by (simp add: retryLoop.simps [of e service target maxRetries retry])
      from "1.IH" [OF True g [symmetric] Inl rec]
      obtain evs where evs: "console w' = console ?w1 @ evs"
        "list_all2 (failed_at e target) (map (Pair service) [retry + 1..maxRetries - 1]) evs"
        by blast
      have up: "[retry..maxRetries - 1] = retry # [retry + 1..maxRetries - 1]"
        using True by (simp add: upto_rec1)
      have f: "failed_at e target (service, retry) (Falha (name service) retry msg)"
        using Inl g by (intro failed_atI [of e service "clock w"]) simp
      let ?evs = "Falha (name service) retry msg # evs"
      have "console w' = console w @ ?evs" using evs(1) by simp
      moreover have "list_all2 (failed_at e target) (map (Pair service) [retry..maxRetries - 1]) ?evs"
        unfolding up using f evs(2) by simp
      ultimately show ?thesis by blast
    qed
  qed
qed

lemma retryLoop_Some_body:
  "retryLoop e s t M r le w = (Some v, le', w') \<Longrightarrow>
   \<exists>evs k tm. r \<le> k \<and> k < M \<and> console w' = console w @ evs @ [Sucesso (name s) k] \<and>
         list_all2 (failed_at e t) (map (Pair s) [r..k - 1]) evs \<and>
         relay_accepts e s t tm v \<and> clock w' = tm + snd (http_get e tm (url_of s t)) \<and>
         htmlCache w' = set_cache (clock w') t v None (htmlCache w)"
proof (induction e s t M r le w rule: retryLoop.induct)
  case (1 e service target maxRetries retry lastError w)
  show ?case
  proof (cases "retry < maxRetries")
    case False
    with "1.prems" show ?thesis by (simp add: retryLoop.simps)
  next
    case True
    obtain resp dt where g: "http_get e (clock w) (url_of service target) = (resp, dt)"
      by (cases "http_get e (clock w) (url_of service target)")
    show ?thesis
    proof (cases "attempt e service resp")
      case (Inr v')
      with True g "1.prems" have v: "v' = v"
        and w': "w' = w\<lparr>clock := clock w + dt,
                     console := console w @ [Sucesso (name service) retry],
                     htmlCache := set_cache (clock w + dt) target v None (htmlCache w)\<rparr>"
        by (auto simp: retryLoop.simps [of e service target maxRetries retry])
      have acc: "relay_accepts e service target (clock w) v"
        using Inr v g attempt_Inr_iff [of e service "clock w" target v] by simp
      have "retry \<le> retry" by simp
      moreover note True
      moreover have "console w' = console w @ [] @ [Sucesso (name service) retry]"
        using w' by simp
      moreover have "list_all2 (failed_at e target) (map (Pair service) [retry..retry - 1]) []"
        by simp
      moreover note acc
      moreover have "clock w' = clock w + snd (http_get e (clock w) (url_of service target))"
        using w' g by simp
      moreover have "htmlCache w' = set_cache (clock w') target v None (htmlCache w)"
        using w' by simp
      ultimately show ?thesis by blast
    next
      case (Inl msg)
      let ?w1 = "w\<lparr>clock := (if retry < maxRetries - 1
                                  then clock w + dt + (2 ^ nat retry * 1000 + random_ms e (clock w + dt))
                                  else clock w + dt),
                       console := console w @ [Falha (name service) retry msg]\<rparr>"
      from True g Inl "1.prems"
      have rec: "retryLoop e service target maxRetries (retry + 1) (Some (name service @ '': '' @ msg)) ?w1 = (Some v, le', w')"
        by (simp add: retryLoop.simps [of e service target maxRetries retry])
      from "1.IH" [OF True g [symmetric] Inl rec]
      obtain evs k tm where evs: "retry + 1 \<le> k" "k < maxRetries"
        "console w' = console ?w1 @ evs @ [Sucesso (name service) k]"
        "list_all2 (failed_at e target) (map (Pair service) [retry + 1..k - 1]) evs"
        "relay_accepts e service target tm v"
        "clock w' = tm + snd (http_get e tm (url_of service target))"
        "htmlCache w' = set_cache (clock w') target v None (htmlCache ?w1)"
        by blast
      have up: "[retry..k - 1] = retry # [retry + 1..k - 1]"
        using evs(1) by (simp add: upto_rec1)
      have f: "failed_at e target (service, retry) (Falha (name service) retry msg)"
        using Inl g by (intro failed_atI [of e service "clock w"]) simp
      let ?evs = "Falha (name service) retry msg # evs"
      have "retry \<le> k" using evs(1) by simp
      moreover note evs(2)
      moreover have "console w' = console w @ ?evs @ [Sucesso (name service) k]" using evs(3) by simp
      moreover have "list_all2 (failed_at e target) (map (Pair service) [retry..k - 1]) ?evs"
        unfolding up using f evs(4) by simp
      moreover note evs(5) evs(6)
      moreover have "htmlCache w' = set_cache (clock w') target v None (htmlCache w)"
        using evs(7) by simp
      ultimately show ?thesis by blast
    qed
  qed
qed

lemma serviceLoop_None_failed:
  "serviceLoop e ss t M le w = (None, le', w') \<Longrightarrow>
   \<exists>evs. console w' = console w @ evs \<and> list_all2 (failed_at e t) (attempts ss M) evs"
proof (induction ss arbitrary: le w)
  case Nil
  then show ?case by (simp add: attempts_def)
next
  case (Cons s ss)
  obtain res1 le1 w1 where r1: "retryLoop e s t M 0 le w = (res1, le1, w1)"
    by (cases "retryLoop e s t M 0 le w") auto
  with Cons.prems have none: "res1 = None" and rest: "serviceLoop e ss t M le1 w1 = (None, le', w')"
    by (auto split: option.splits)
  from retryLoop_None_failed [OF r1 [unfolded none]]
  obtain evs1 where e1: "console w1 = console w @ evs1"
    "list_all2 (failed_at e t) (map (Pair s) [0..M - 1]) evs1"
    by blast
  from Cons.IH [OF rest]
  obtain evs2 where e2: "console w' = console w1 @ evs2"
    "list_all2 (failed_at e t) (attempts ss M) evs2"
    by blast
  have "console w' = console w @ (evs1 @ evs2)" using e1(1) e2(1) by simp
  moreover have "list_all2 (failed_at e t) (attempts (s # ss) M) (evs1 @ evs2)"
    using e1(2) e2(2) by (simp add: attempts_def list_all2_appendI)
  ultimately show ?case by blast
qed

lemma serviceLoop_Some_body:
  "serviceLoop e ss t M le w = (Some v, le', w') \<Longrightarrow>
   \<exists>pre s post evs k tm. ss = pre @ s # post \<and> 0 \<le> k \<and> k < M \<and>
         console w' = console w @ evs @ [Sucesso (name s) k] \<and>
         list_all2 (failed_at e t) (attempts pre M @ map (Pair s) [0..k - 1]) evs \<and>
         relay_accepts e s t tm v \<and> clock w' = tm + snd (http_get e tm (url_of s t)) \<and>
         htmlCache w' = set_cache (clock w') t v None (htmlCache w)"
proof (induction ss arbitrary: le w)
  case Nil
  then show ?case by simp
next
  case (Cons s ss)
  obtain res1 le1 w1 where r1: "retryLoop e s t M 0 le w = (res1, le1, w1)"
    by (cases "retryLoop e s t M 0 le w") auto
  show ?case
  proof (cases res1)
    case (Some v1)
    with Cons.prems r1 have "retryLoop e s t M 0 le w = (Some v, le', w')" by auto
    from retryLoop_Some_body [OF this]
    obtain evs k tm where a: "0 \<le> k" "k < M" "console w' = console w @ evs @ [Sucesso (name s) k]"
      "list_all2 (failed_at e t) (map (Pair s) [0..k - 1]) evs"
      "relay_accepts e s t tm v" "clock w' = tm + snd (http_get e tm (url_of s t))"
      "htmlCache w' = set_cache (clock w') t v None (htmlCache w)"
      by blast
    have "s # ss = [] @ s # ss" by simp
    moreover have "list_all2 (failed_at e t) (attempts [] M @ map (Pair s) [0..k - 1]) evs"
      using a(4) by (simp add: attempts_def)
    ultimately show ?thesis using a(1,2,3,5,6,7) by blast
  next
    case None
    with Cons.prems r1 have rest: "serviceLoop e ss t M le1 w1 = (Some v, le', w')" by auto
    from retryLoop_None_failed [OF r1 [unfolded None]]
    obtain evs1 where e1: "console w1 = console w @ evs1"
      "list_all2 (failed_at e t) (map (Pair s) [0..M - 1]) evs1"
      by blast
    from retryLoop_None [OF r1 [unfolded None]] have hc: "htmlCache w1 = htmlCache w"
      by blast
    from Cons.IH [OF rest]
    obtain pre s' post evs2 k tm where e2: "ss = pre @ s' # post" "0 \<le> k" "k < M"
      "console w' = console w1 @ evs2 @ [Sucesso (name s') k]"
      "list_all2 (failed_at e t) (attempts pre M @ map (Pair s') [0..k - 1]) evs2"
      "relay_accepts e s' t tm v" "clock w' = tm + snd (http_get e tm (url_of s' t))"
      "htmlCache w' = set_cache (clock w') t v None (htmlCache w1)"
      by blast
    have "s # ss = (s # pre) @ s' # post" using e2(1) by simp
    moreover have "console w' = console w @ (evs1 @ evs2) @ [Sucesso (name s') k]"
      using e1(1) e2(4) by simp
    moreover have "list_all2 (failed_at e t) (attempts (s # pre) M @ map (Pair s') [0..k - 1]) (evs1 @ evs2)"
      using e1(2) e2(5) by (simp add: attempts_def list_all2_appendI)
    moreover have "htmlCache w' = set_cache (clock w') t v None (htmlCache w)"
      using e2(8) hc by simp
    ultimately show ?thesis using e2(2,3,6,7) by blast
  qed
qed

lemma failed_at_key: "failed_at e t a ev \<Longrightarrow> is_failure ev \<and> ev_key ev = (name (fst a), snd a)"
  by (auto simp: failed_at_def)

lemma attempts_keys:
  "list_all2 (failed_at e t) as evs \<Longrightarrow>
   map ev_key evs = map (\<lambda>a. (name (fst a), snd a)) as \<and> (\<forall>ev \<in> set evs. is_failure ev)"
  by (induction rule: list_all2_induct) (auto dest: failed_at_key)

lemma combinations_attempts:
  "combinations ss M = map (\<lambda>a. (name (fst a), snd a)) (attempts ss M)"
  by (induction ss) (simp_all add: combinations_def attempts_def comp_def)

lemma failed_at_every:
  "list_all2 (failed_at e t) as evs \<Longrightarrow> a \<in> set as \<Longrightarrow> \<exists>ev \<in> set evs. failed_at e t a ev"
  by (induction rule: list_all2_induct) auto


lemma fetch_cases:
  assumes run: "fetchWithCorsProxy e target maxRetries w = (r, w')"
  obtains (hit) v where "fst (get_cache (clock w) target (htmlCache w)) = Some v" "truthy v"
      "r = Inr v" "w' = w\<lparr>htmlCache := snd (get_cache (clock w) target (htmlCache w))\<rparr>"
  | (found) v le where "\<forall>c. fst (get_cache (clock w) target (htmlCache w)) = Some c \<longrightarrow> \<not> truthy c"
      "serviceLoop e (corsProxyServices e) target maxRetries None
         (w\<lparr>htmlCache := snd (get_cache (clock w) target (htmlCache w))\<rparr>) = (Some v, le, w')"
      "r = Inr v"
  | (failed) le where "\<forall>c. fst (get_cache (clock w) target (htmlCache w)) = Some c \<longrightarrow> \<not> truthy c"
      "serviceLoop e (corsProxyServices e) target maxRetries None
         (w\<lparr>htmlCache := snd (get_cache (clock w) target (htmlCache w))\<rparr>) = (None, le, w')"
      "r = Inl (all_failed maxRetries le)"
proof -
  obtain cached hc where gc: "get_cache (clock w) target (htmlCache w) = (cached, hc)"
    by (cases "get_cache (clock w) target (htmlCache w)")
  let ?hit = "(case cached of None \<Rightarrow> None | Some v \<Rightarrow> if truthy v then Some v else None)"
  show ?thesis
  proof (cases ?hit)
    case (Some v)
    then have c: "cached = Some v" "truthy v" by (auto split: option.splits if_splits)
    from Some run gc have "r = Inr v" and "w' = w\<lparr>htmlCache := hc\<rparr>"
      by (auto simp: fetchWithCorsProxy_def)
    with c gc show ?thesis by (intro hit [of v]) simp_all
  next
    case None
    then have miss: "\<forall>c. fst (get_cache (clock w) target (htmlCache w)) = Some c \<longrightarrow> \<not> truthy c"
      using gc by (auto split: option.splits if_splits)
    let ?w0 = "w\<lparr>htmlCache := hc\<rparr>"
    obtain res le w1 where sl: "serviceLoop e (corsProxyServices e) target maxRetries None ?w0 = (res, le, w1)"
      by (cases "serviceLoop e (corsProxyServices e) target maxRetries None ?w0") auto
    show ?thesis
    proof (cases res)
      case (Some v)
      with run gc None sl have "r = Inr v" and "w' = w1"
        by (auto simp: fetchWithCorsProxy_def)
      with miss sl Some gc show ?thesis by (intro found [of v le]) simp_all
    next
      case none: None
      with run gc None sl have "r = Inl (all_failed maxRetries le)" and "w' = w1"
        by (auto simp: fetchWithCorsProxy_def)
      with miss sl none gc show ?thesis by (intro failed [of le]) simp_all
    qed
  qed
qed

lemma fetch_throws:
  assumes run: "fetchWithCorsProxy e target maxRetries w = (r, w')" and r: "r = Inl msg"
  shows "\<exists>evs. console w' = console w @ evs \<and> (\<forall>ev \<in> set evs. is_failure ev) \<and>
           map ev_key evs = combinations (corsProxyServices e) maxRetries \<and>
           list_all2 (failed_at e target) (attempts (corsProxyServices e) maxRetries) evs \<and>
           (0 < maxRetries \<longrightarrow>
              evs \<noteq> [] \<and> ev_key (last evs) = (''ThingProxy'', maxRetries - 1) \<and>
              msg = all_failed maxRetries (Some (''ThingProxy'' @ '': '' @ failure_text (last evs))) \<and>
              (\<exists>pre. msg = pre @ ''ThingProxy'' @ '': '' @ failure_text (last evs))) \<and>
           (maxRetries \<le> 0 \<longrightarrow> evs = [] \<and> msg = all_failed maxRetries None)"
  using run
proof (cases rule: fetch_cases)
  case (hit v)
  with r show ?thesis by simp
next
  case (found v le)
  with r show ?thesis by simp
next
  case (failed le)
  let ?w0 = "w\<lparr>htmlCache := snd (get_cache (clock w) target (htmlCache w))\<rparr>"
  from failed(3) r have msg: "msg = all_failed maxRetries le" by simp
  from serviceLoop_None [OF failed(2)]
  obtain evs where evs: "console w' = console w @ evs"
    "map ev_key evs = combinations (corsProxyServices e) maxRetries"
    "\<forall>ev \<in> set evs. is_failure ev"
    "le = (if evs = [] then None
            else Some (fst (ev_key (last evs)) @ '': '' @ failure_text (last evs)))"
    by auto
  from serviceLoop_None_failed [OF failed(2)]
  obtain evs' where evs': "console w' = console w @ evs'"
    "list_all2 (failed_at e target) (attempts (corsProxyServices e) maxRetries) evs'"
    by auto
  from evs(1) evs'(1) have same: "evs' = evs" by simp
  have pos: "evs \<noteq> [] \<and> ev_key (last evs) = (''ThingProxy'', maxRetries - 1) \<and>
      msg = all_failed maxRetries (Some (''ThingProxy'' @ '': '' @ failure_text (last evs))) \<and>
      (\<exists>pre. msg = pre @ ''ThingProxy'' @ '': '' @ failure_text (last evs))"
    if "0 < maxRetries"
  proof -
    from last_combinations [OF that, of e] evs(2)
    have ne: "evs \<noteq> []" and "last (map ev_key evs) = (''ThingProxy'', maxRetries - 1)"
      by auto
    then have k: "ev_key (last evs) = (''ThingProxy'', maxRetries - 1)"
      by (simp add: last_map)
    with ne evs(4) have le: "le = Some (''ThingProxy'' @ '': '' @ failure_text (last evs))"
      by simp
    have "\<exists>pre. all_failed maxRetries le = pre @ ''ThingProxy'' @ '': '' @ failure_text (last evs)"
      unfolding le all_failed_def by (simp add: append_eq_append_conv2)
    with ne k le msg show ?thesis by simp
  qed
  have nonpos: "evs = [] \<and> msg = all_failed maxRetries None" if "maxRetries \<le> 0"
  proof -
    from that have "combinations (corsProxyServices e) maxRetries = []"
      by (simp add: combinations_def)
    with evs(2) have "evs = []" by simp
    with evs(4) msg show ?thesis by simp
  qed
  from evs(1) evs(3) evs(2) evs'(2) [unfolded same] pos nonpos
  show ?thesis by blast
qed

lemma fetch_returns:
  assumes run: "fetchWithCorsProxy e target maxRetries w = (r, w')" and r: "r = Inr v"
  shows "(fst (get_cache (clock w) target (htmlCache w)) = Some v \<and> truthy v \<and>
            console w' = console w) \<or>
         (\<exists>pre s post evs k t. corsProxyServices e = pre @ s # post \<and> 0 \<le> k \<and> k < maxRetries \<and>
            console w' = console w @ evs @ [Sucesso (name s) k] \<and>
            (\<forall>ev \<in> set evs. is_failure ev) \<and>
            list_all2 (failed_at e target) (attempts pre maxRetries @ map (Pair s) [0..k - 1]) evs \<and>
            relay_accepts e s target t v \<and>
            clock w' = t + snd (http_get e t (url_of s target)) \<and>
            htmlCache w' = set_cache (clock w') target v None
                             (snd (get_cache (clock w) target (htmlCache w))))"
  using run
proof (cases rule: fetch_cases)
  case (hit v')
  with r show ?thesis by simp
next
  case (failed le)
  with r show ?thesis by simp
next
  case (found v' le)
  with r have v: "v' = v" by simp
  from serviceLoop_Some_body [OF found(2) [unfolded v]]
  obtain pre s post evs k t where a: "corsProxyServices e = pre @ s # post" "0 \<le> k" "k < maxRetries"
    "console w' = console w @ evs @ [Sucesso (name s) k]"
    "list_all2 (failed_at e target) (attempts pre maxRetries @ map (Pair s) [0..k - 1]) evs"
    "relay_accepts e s target t v" "clock w' = t + snd (http_get e t (url_of s target))"
    "htmlCache w' = set_cache (clock w') target v None
                             (snd (get_cache (clock w) target (htmlCache w)))"
    by auto
  from attempts_keys [OF a(5)] have "\<forall>ev \<in> set evs. is_failure ev" by simp
  with a show ?thesis by blast
qed

lemma fetch_success_logged:
  assumes run: "fetchWithCorsProxy e target maxRetries w = (r, w')"
    and ev: "\<exists>ev \<in> set (drop (length (console w)) (console w')). \<not> is_failure ev"
  shows "\<exists>v. r = Inr v"
proof (cases r)
  case (Inr v)
  then show ?thesis by simp
next
  case (Inl msg)
  from fetch_throws [OF run Inl]
  obtain evs where "console w' = console w @ evs" "\<forall>ev \<in> set evs. is_failure ev"
    by blast
  with ev show ?thesis by simp
qed

lemma fetch_first_relay:
  assumes run: "fetchWithCorsProxy e target maxRetries w = (r, w')"
    and pos: "0 < maxRetries"
    and miss: "\<forall>c. fst (get_cache (clock w) target (htmlCache w)) = Some c \<longrightarrow> \<not> truthy c"
    and acc: "relay_accepts e (hd (corsProxyServices e)) target (clock w) v"
  shows "r = Inr v"
proof -
  obtain s rest where ss: "corsProxyServices e = s # rest"
    by (simp add: corsProxyServices_def)
  let ?w0 = "w\<lparr>htmlCache := snd (get_cache (clock w) target (htmlCache w))\<rparr>"
  from acc ss have "attempt e s (fst (http_get e (clock ?w0) (url_of s target))) = Inr v"
    using attempt_Inr_iff [of e s "clock w" target v] by simp
  from retry_first_success [OF pos this]
  have "fst (retryLoop e s target maxRetries 0 None ?w0) = Some v" .
  then have sl: "fst (serviceLoop e (corsProxyServices e) target maxRetries None ?w0) = Some v"
    unfolding ss by (cases "retryLoop e s target maxRetries 0 None ?w0") auto
  from run show ?thesis
  proof (cases rule: fetch_cases)
    case (hit c)
    with miss show ?thesis by simp
  next
    case (found v' le)
    with sl show ?thesis by simp
  next
    case (failed le)
    with sl show ?thesis by simp
  qed
qed

lemma attempts_mem: "s \<in> set ss \<Longrightarrow> 0 \<le> k \<Longrightarrow> k < M \<Longrightarrow> (s, k) \<in> set (attempts ss M)"
  by (induction ss) (auto simp: attempts_def)

lemma fetch_some_relay:
  assumes run: "fetchWithCorsProxy e target maxRetries w = (r, w')"
    and pos: "0 < maxRetries"
    and s: "s \<in> set (corsProxyServices e)"
    and acc: "\<forall>t. \<exists>v. relay_accepts e s target t v"
  shows "\<exists>v. r = Inr v"
proof (cases r)
  case (Inr v)
  then show ?thesis by simp
next
  case (Inl msg)
  from fetch_throws [OF run Inl]
  obtain evs where f: "list_all2 (failed_at e target) (attempts (corsProxyServices e) maxRetries) evs"
    by blast
  have "(s, 0) \<in> set (attempts (corsProxyServices e) maxRetries)"
    using s pos by (intro attempts_mem) simp_all
  from failed_at_every [OF f this] obtain ev where "failed_at e target (s, 0) ev" by blast
  then obtain t where "\<forall>v. \<not> relay_accepts e s target t v"
    by (auto simp: failed_at_def)
  with acc show ?thesis by blast
qed

text \<open>
  C6 as stated does not hold when \<open>maxRetries\<close> is \<open>0\<close>: on a cache miss no relay is tried,
  the function throws at once, and the message of the error ends with \<open>null\<close> and contains
  the name of no relay.
\<close>

theorem C6_zero_retries_names_no_relay:
  "fetchWithCorsProxy env_down ''https://example.com/'' 0 (initial_world 0)
     = (Inl (''Todos os servi'' @ [CHR 0xE7] @ ''os CORS falharam ap'' @ [CHR 0xF3]
               @ ''s 0 tentativas. '' @ [CHR 0xDA] @ ''ltimo erro: null''),
        initial_world 0) \<and>
   filter (includesStr (''Todos os servi'' @ [CHR 0xE7] @ ''os CORS falharam ap'' @ [CHR 0xF3]
                          @ ''s 0 tentativas. '' @ [CHR 0xDA] @ ''ltimo erro: null''))
          (map name (corsProxyServices env_down)) = []"
proof -
  have z: "show_int 0 = ''0''" by code_simp
  show ?thesis
    by (simp add: fetchWithCorsProxy_def get_cache_def initial_world_def SimpleCache_def
        corsProxyServices_def retryLoop.simps all_failed_def z)
qed

text \<open>
  C6, amended: \<open>fetchWithCorsProxy\<close> throws only after every combination of relay and retry
  has been tried, in the configured order, and has failed on a response that the chain does
  not accept. When \<open>maxRetries\<close> is positive the message of the error thrown ends with the
  name of the last relay, \<open>ThingProxy\<close>, a colon and the error text of that relay's last
  failure; when \<open>maxRetries\<close> is not positive no attempt is made and the message ends with
  \<open>null\<close>. A value that is returned is either the truthy cached value, with nothing logged,
  or the content that one relay gave at one attempt and that the chain accepts, after the
  failure of every combination before it, and it is the value written to the cache. A
  success logged means a value returned; on a cache miss, when the first relay's first
  response is accepted its content is the value returned; and when some relay answers every
  request with an accepted response, no error is thrown.
\<close>

theorem C6_relay_chain_error:
  assumes "fetchWithCorsProxy e target maxRetries w = (r, w')"
  shows "(\<forall>msg. r = Inl msg \<longrightarrow>
            (\<exists>evs. console w' = console w @ evs \<and> (\<forall>ev \<in> set evs. is_failure ev) \<and>
                   map ev_key evs = combinations (corsProxyServices e) maxRetries \<and>
                   list_all2 (failed_at e target) (attempts (corsProxyServices e) maxRetries) evs \<and>
                   (0 < maxRetries \<longrightarrow>
                      evs \<noteq> [] \<and> ev_key (last evs) = (''ThingProxy'', maxRetries - 1) \<and>
                      msg = all_failed maxRetries (Some (''ThingProxy'' @ '': '' @ failure_text (last evs))) \<and>
                      (\<exists>pre. msg = pre @ ''ThingProxy'' @ '': '' @ failure_text (last evs))) \<and>
                   (maxRetries \<le> 0 \<longrightarrow> evs = [] \<and> msg = all_failed maxRetries None))) \<and>
         (\<forall>v. r = Inr v \<longrightarrow>
            (fst (get_cache (clock w) target (htmlCache w)) = Some v \<and> truthy v \<and>
               console w' = console w) \<or>
            (\<exists>pre s post evs k t. corsProxyServices e = pre @ s # post \<and> 0 \<le> k \<and> k < maxRetries \<and>
               console w' = console w @ evs @ [Sucesso (name s) k] \<and>
               (\<forall>ev \<in> set evs. is_failure ev) \<and>
               list_all2 (failed_at e target) (attempts pre maxRetries @ map (Pair s) [0..k - 1]) evs \<and>
               relay_accepts e s target t v \<and>
               clock w' = t + snd (http_get e t (url_of s target)) \<and>
               htmlCache w' = set_cache (clock w') target v None
                                (snd (get_cache (clock w) target (htmlCache w))))) \<and>
         ((\<exists>ev \<in> set (drop (length (console w)) (console w')). \<not> is_failure ev) \<longrightarrow> (\<exists>v. r = Inr v)) \<and>
         (\<forall>v. 0 < maxRetries \<and>
               (\<forall>c. fst (get_cache (clock w) target (htmlCache w)) = Some c \<longrightarrow> \<not> truthy c) \<and>
               relay_accepts e (hd (corsProxyServices e)) target (clock w) v \<longrightarrow> r = Inr v) \<and>
         (0 < maxRetries \<and> (\<exists>s \<in> set (corsProxyServices e). \<forall>t. \<exists>v. relay_accepts e s target t v)
            \<longrightarrow> (\<exists>v. r = Inr v))"
proof (intro conjI allI impI)
  fix msg assume "r = Inl msg"
  from fetch_throws [OF assms this]
  show "\<exists>evs. console w' = console w @ evs \<and> (\<forall>ev \<in> set evs. is_failure ev) \<and>
                   map ev_key evs = combinations (corsProxyServices e) maxRetries \<and>
                   list_all2 (failed_at e target) (attempts (corsProxyServices e) maxRetries) evs \<and>
                   (0 < maxRetries \<longrightarrow>
                      evs \<noteq> [] \<and> ev_key (last evs) = (''ThingProxy'', maxRetries - 1) \<and>
                      msg = all_failed maxRetries (Some (''ThingProxy'' @ '': '' @ failure_text (last evs))) \<and>
                      (\<exists>pre. msg = pre @ ''ThingProxy'' @ '': '' @ failure_text (last evs))) \<and>
                   (maxRetries \<le> 0 \<longrightarrow> evs = [] \<and> msg = all_failed maxRetries None)" .
next
  fix v assume "r = Inr v"
  from fetch_returns [OF assms this]
  show "(fst (get_cache (clock w) target (htmlCache w)) = Some v \<and> truthy v \<and>
               console w' = console w) \<or>
            (\<exists>pre s post evs k t. corsProxyServices e = pre @ s # post \<and> 0 \<le> k \<and> k < maxRetries \<and>
               console w' = console w @ evs @ [Sucesso (name s) k] \<and>
               (\<forall>ev \<in> set evs. is_failure ev) \<and>
               list_all2 (failed_at e target) (attempts pre maxRetries @ map (Pair s) [0..k - 1]) evs \<and>
               relay_accepts e s target t v \<and>
               clock w' = t + snd (http_get e t (url_of s target)) \<and>
               htmlCache w' = set_cache (clock w') target v None
                                (snd (get_cache (clock w) target (htmlCache w))))" .
next
  assume "\<exists>ev \<in> set (drop (length (console w)) (console w')). \<not> is_failure ev"
  from fetch_success_logged [OF assms this] show "\<exists>v. r = Inr v" .
next
  fix v
  assume h: "0 < maxRetries \<and>
               (\<forall>c. fst (get_cache (clock w) target (htmlCache w)) = Some c \<longrightarrow> \<not> truthy c) \<and>
               relay_accepts e (hd (corsProxyServices e)) target (clock w) v"
  then have a: "0 < maxRetries"
    and b: "\<forall>c. fst (get_cache (clock w) target (htmlCache w)) = Some c \<longrightarrow> \<not> truthy c"
    and c: "relay_accepts e (hd (corsProxyServices e)) target (clock w) v"
    by simp_all
  from fetch_first_relay [OF assms a b c] show "r = Inr v" .
next
  assume h: "0 < maxRetries \<and> (\<exists>s \<in> set (corsProxyServices e). \<forall>t. \<exists>v. relay_accepts e s target t v)"
  then obtain s where "0 < maxRetries" "s \<in> set (corsProxyServices e)"
    "\<forall>t. \<exists>v. relay_accepts e s target t v"
    by blast
  from fetch_some_relay [OF assms this] show "\<exists>v. r = Inr v" .
qed


theorem C6_relay_chain_error_witness:
  "(\<exists>pre. fst (fetchWithCorsProxy env_down ''https://example.com/'' 3 (initial_world 0))
       = Inl (pre @ ''ThingProxy'' @ '': '' @ ''Failed to fetch'')) \<and>
   (\<exists>v s t. fst (fetchWithCorsProxy env_short_then_long ''https://example.com/'' 3 (initial_world 0))
       = Inr v \<and> s \<in> set (corsProxyServices env_short_then_long) \<and>
       relay_accepts env_short_then_long s ''https://example.com/'' t v)"
proof
  obtain r w' where run: "fetchWithCorsProxy env_down ''https://example.com/'' 3 (initial_world 0) = (r, w')"
    by (cases "fetchWithCorsProxy env_down ''https://example.com/'' 3 (initial_world 0)")
  have "fst (fetchWithCorsProxy env_down ''https://example.com/'' 3 (initial_world 0))
       = Inl (all_failed 3 (Some ''ThingProxy: Failed to fetch''))"
    by (simp add: fetchWithCorsProxy_def get_cache_def initial_world_def SimpleCache_def
        corsProxyServices_def retryLoop.simps attempt_def env_down_def errorMsg_def)
  with run have r: "r = Inl (all_failed 3 (Some ''ThingProxy: Failed to fetch''))"
    by simp
  from C6_relay_chain_error [OF run, THEN conjunct1, rule_format, OF r]
  obtain evs where A: "0 < (3::int) \<longrightarrow>
      evs \<noteq> [] \<and> ev_key (last evs) = (''ThingProxy'', 3 - 1) \<and>
      all_failed 3 (Some ''ThingProxy: Failed to fetch'')
        = all_failed 3 (Some (''ThingProxy'' @ '': '' @ failure_text (last evs))) \<and>
      (\<exists>pre. all_failed 3 (Some ''ThingProxy: Failed to fetch'')
           = pre @ ''ThingProxy'' @ '': '' @ failure_text (last evs))"
    by blast
  then have "all_failed 3 (Some ''ThingProxy: Failed to fetch'')
        = all_failed 3 (Some (''ThingProxy'' @ '': '' @ failure_text (last evs)))"
    by simp
  then have f: "failure_text (last evs) = ''Failed to fetch''"
    by (simp add: all_failed_def)
  have "0 < (3::int)" by simp
  with A obtain pre where "all_failed 3 (Some ''ThingProxy: Failed to fetch'')
           = pre @ ''ThingProxy'' @ '': '' @ failure_text (last evs)"
    by blast
  then have "\<exists>pre. r = Inl (pre @ ''ThingProxy'' @ '': '' @ ''Failed to fetch'')"
    unfolding r f by blast
  with run show "\<exists>pre. fst (fetchWithCorsProxy env_down ''https://example.com/'' 3 (initial_world 0))
       = Inl (pre @ ''ThingProxy'' @ '': '' @ ''Failed to fetch'')"
    by simp
next
  let ?e = env_short_then_long
  let ?t = "''https://example.com/''"
  obtain r w' where run: "fetchWithCorsProxy ?e ?t 3 (initial_world 0) = (r, w')"
    by (cases "fetchWithCorsProxy ?e ?t 3 (initial_world 0)")
  have ne: "replicate 120 CHR ''x'' \<noteq> ''short''"
  proof
    assume "replicate 120 CHR ''x'' = ''short''"
    then have "length (replicate 120 CHR ''x'') = length ''short''" by (rule arg_cong)
    then show False by simp
  qed
  have mem: "corsProxyServices ?e ! 1 \<in> set (corsProxyServices ?e)"
    by (simp add: corsProxyServices_def)
  have acc: "\<forall>t. \<exists>v. relay_accepts ?e (corsProxyServices ?e ! 1) ?t t v"
    by (simp add: relay_accepts_def relay_yields_def accepted_def corsProxyServices_def
          env_short_then_long_def unwrap_def lengthOf_def gt100_def ne)
  have hyp: "0 < (3::int) \<and> (\<exists>s \<in> set (corsProxyServices ?e). \<forall>t. \<exists>v. relay_accepts ?e s ?t t v)"
    using mem acc by (intro conjI bexI [of _ "corsProxyServices ?e ! 1"]) simp_all
  from C6_relay_chain_error [OF run, THEN conjunct2, THEN conjunct2, THEN conjunct2, THEN conjunct2,
      rule_format, OF hyp]
  obtain v where v: "r = Inr v" by blast
  have miss: "fst (get_cache (clock (initial_world 0)) ?t (htmlCache (initial_world 0))) \<noteq> Some v"
    by (simp add: get_cache_def initial_world_def SimpleCache_def)
  from C6_relay_chain_error [OF run, THEN conjunct2, THEN conjunct1, rule_format, OF v] miss
  obtain pre s post t where "corsProxyServices ?e = pre @ s # post" "relay_accepts ?e s ?t t v"
    by blast
  then have "s \<in> set (corsProxyServices ?e)" "relay_accepts ?e s ?t t v" by simp_all
  with run v show "\<exists>v s t. fst (fetchWithCorsProxy ?e ?t 3 (initial_world 0)) = Inr v \<and>
       s \<in> set (corsProxyServices ?e) \<and> relay_accepts ?e s ?t t v"
    by auto
qed

text \<open>
  C7: a response whose unwrapped body is a string shorter than 100 characters makes the
  attempt fail; \<open>fetchWithCorsProxy\<close> returns, and writes to the HTML cache, accepted contents
  only (for a string: more than 100 characters), so such a body is neither returned nor
  cached; and when the first relay yields a short body at every attempt and the second relay
  yields a body of more than 100 characters, the result is the second relay's body.
\<close>

theorem C7_short_body_rejected:
  "(\<forall>service responseText b ok status statusText.
      unwrap e service responseText = Inr (JStr b) \<and> length b < 100 \<longrightarrow>
      (\<exists>m. attempt e service (Response ok status statusText (Inr responseText)) = Inl m)) \<and>
   (\<forall>b. accepted e (JStr b) \<longleftrightarrow> 100 < length b) \<and>
   (html_cache_ok e w \<longrightarrow>
      html_cache_ok e (snd (fetchWithCorsProxy e target maxRetries w)) \<and>
      (\<forall>v. fst (fetchWithCorsProxy e target maxRetries w) = Inr v \<longrightarrow> accepted e v)) \<and>
   (0 < maxRetries \<and> fmlookup (cache (htmlCache w)) target = None \<and>
    (\<forall>t. \<exists>b. relay_yields e (corsProxyServices e ! 0) target t (JStr b) \<and> length b < 100) \<and>
    (\<forall>t. relay_yields e (corsProxyServices e ! 1) target t (JStr long)) \<and> 100 < length long
      \<longrightarrow> fst (fetchWithCorsProxy e target maxRetries w) = Inr (JStr long))"
proof (intro conjI allI impI)
  fix service responseText b ok status statusText
  assume "unwrap e service responseText = Inr (JStr b) \<and> length b < 100"
  then show "\<exists>m. attempt e service (Response ok status statusText (Inr responseText)) = Inl m"
    using short_body_fails by blast
next
  fix b show "accepted e (JStr b) \<longleftrightarrow> 100 < length b"
    by (rule accepted_JStr)
next
  assume ok: "html_cache_ok e w"
  obtain r w' where run: "fetchWithCorsProxy e target maxRetries w = (r, w')"
    by (cases "fetchWithCorsProxy e target maxRetries w")
  from fetch_keeps_cache_ok [OF ok run] run
  show "html_cache_ok e (snd (fetchWithCorsProxy e target maxRetries w))"
    by simp
  fix v assume "fst (fetchWithCorsProxy e target maxRetries w) = Inr v"
  with fetch_keeps_cache_ok [OF ok run] run show "accepted e v" by simp
next
  assume h: "0 < maxRetries \<and> fmlookup (cache (htmlCache w)) target = None \<and>
    (\<forall>t. \<exists>b. relay_yields e (corsProxyServices e ! 0) target t (JStr b) \<and> length b < 100) \<and>
    (\<forall>t. relay_yields e (corsProxyServices e ! 1) target t (JStr long)) \<and> 100 < length long"
  obtain s1 s2 rest where ss: "corsProxyServices e = s1 # s2 # rest"
    by (simp add: corsProxyServices_def)
  from h ss have short: "\<forall>t. \<exists>m. attempt e s1 (fst (http_get e t (url_of s1 target))) = Inl m"
    using relay_yields_short by fastforce
  from h ss have long: "\<forall>t. attempt e s2 (fst (http_get e t (url_of s2 target))) = Inr (JStr long)"
    using relay_yields_long by fastforce
  have 1: "fst (retryLoop e s1 target maxRetries 0 None w) = None"
    using retry_all_fail [OF short] .
  have 2: "fst (retryLoop e s2 target maxRetries 0 le1 w1) = Some (JStr long)" for le1 w1
    using retry_first_success [of 0 maxRetries e s2 w1 target "JStr long" le1] h long by simp
  have "fst (serviceLoop e (corsProxyServices e) target maxRetries None w) = Some (JStr long)"
    unfolding ss using serviceLoop_second [OF 1 2] .
  with h show "fst (fetchWithCorsProxy e target maxRetries w) = Inr (JStr long)"
    using fetch_result by blast
qed

theorem C7_short_body_rejected_witness:
  "fst (fetchWithCorsProxy env_short_then_long ''https://example.com/'' 3 (initial_world 0))
     = Inr (JStr (replicate 120 CHR ''x''))"
proof -
  let ?e = env_short_then_long
  have a: "(0::int) < 3" by simp
  have b: "fmlookup (cache (htmlCache (initial_world 0))) ''https://example.com/'' = None"
    by (simp add: initial_world_def SimpleCache_def)
  have c: "\<forall>t. \<exists>b. relay_yields ?e (corsProxyServices ?e ! 0) ''https://example.com/'' t (JStr b) \<and> length b < 100"
    by (simp add: relay_yields_def corsProxyServices_def env_short_then_long_def unwrap_def
          contents_of_def getProp_def)
  have ne: "replicate 120 CHR ''x'' \<noteq> ''short''"
  proof
    assume "replicate 120 CHR ''x'' = ''short''"
    then have "length (replicate 120 CHR ''x'') = length ''short''" by (rule arg_cong)
    then show False by simp
  qed
  have d: "\<forall>t. relay_yields ?e (corsProxyServices ?e ! 1) ''https://example.com/'' t (JStr (replicate 120 CHR ''x''))"
    by (simp add: relay_yields_def corsProxyServices_def env_short_then_long_def unwrap_def ne)
  have f: "100 < length (replicate 120 CHR ''x'')" by simp
  from C7_short_body_rejected [of ?e "initial_world 0" "''https://example.com/''" 3 "replicate 120 CHR ''x''"]
    a b c d f
  show ?thesis by blast
qed

section \<open>Properties of the candidate collection\<close>

lemma addCandidate_inv:
  "src img = a \<Longrightarrow> cand_inv st \<Longrightarrow> cand_inv (addCandidate a img st)"
  by (cases st) (auto simp: cand_inv_def addCandidate_def)

lemma addCandidate_mono: "set (fst st) \<subseteq> set (fst (addCandidate a img st))"
  by (cases st) (auto simp: addCandidate_def)

lemma addCandidate_mem: "a \<noteq> [] \<Longrightarrow> a \<in> set (fst (addCandidate a img st))"
  by (cases st) (auto simp: addCandidate_def)

lemma step_okI:
  "(\<And>st. cand_inv st \<Longrightarrow> cand_inv (f st)) \<Longrightarrow> (\<And>st. set (fst st) \<subseteq> set (fst (f st))) \<Longrightarrow> step_ok f"
  by (simp add: step_ok_def)

lemma step_ok_id: "step_ok (\<lambda>st. st)"
  by (simp add: step_ok_def)

lemma step_ok_add: "src img = a \<Longrightarrow> step_ok (addCandidate a img)"
  by (simp add: step_ok_def addCandidate_inv addCandidate_mono)

lemma step_ok_comp: "step_ok f \<Longrightarrow> step_ok g \<Longrightarrow> step_ok (\<lambda>st. g (f st))"
  unfolding step_ok_def by (meson subset_trans)

lemma step_ok_fold: "(\<And>x. x \<in> set xs \<Longrightarrow> step_ok (f x)) \<Longrightarrow> step_ok (fold f xs)"
proof (induction xs)
  case Nil
  then show ?case by (simp add: step_ok_def)
next
  case (Cons x xs)
  have "step_ok (\<lambda>st. fold f xs (f x st))"
    by (rule step_ok_comp) (simp_all add: Cons)
  then show ?case by (simp add: step_ok_def)
qed

lemma json_inv:
  "cand_inv st \<Longrightarrow> cand_inv (extractImagesFromJson v b st)"
  "cand_inv st \<Longrightarrow> cand_inv (extractImagesFromProps kvs b st)"
  by (induction v b st and kvs b st rule: extractImagesFromJson_extractImagesFromProps.induct)
     (auto simp: addCandidate_inv)

lemma json_mono:
  "set (fst st) \<subseteq> set (fst (extractImagesFromJson v b st))"
  "set (fst st) \<subseteq> set (fst (extractImagesFromProps kvs b st))"
proof (induction v b st and kvs b st rule: extractImagesFromJson_extractImagesFromProps.induct)
  case (1 s b st)
  show ?case by (simp add: addCandidate_mono)
next
  case (9 k v kvs b st)
  show ?case
  proof (cases "followsKey k")
    case True
    with 9 show ?thesis by auto
  next
    case False
    with 9 show ?thesis by simp
  qed
qed auto

lemma step_ok_json: "step_ok (extractImagesFromJson v b)"
  by (simp add: step_okI json_inv json_mono)

lemma json_hook_inv:
  "cand_inv st \<Longrightarrow> cand_inv (extractImagesFromJson_hook v path b st)"
  "cand_inv st \<Longrightarrow> cand_inv (extractImagesFromProps_hook kvs b st)"
  by (induction v path b st and kvs b st rule: extractImagesFromJson_hook_extractImagesFromProps_hook.induct)
     (auto simp: addCandidate_inv)

lemma json_hook_mono:
  "set (fst st) \<subseteq> set (fst (extractImagesFromJson_hook v path b st))"
  "set (fst st) \<subseteq> set (fst (extractImagesFromProps_hook kvs b st))"
proof (induction v path b st and kvs b st rule: extractImagesFromJson_hook_extractImagesFromProps_hook.induct)
  case (1 s path b st)
  show ?case by (simp add: addCandidate_mono)
next
  case (9 k v kvs b st)
  show ?case
  proof (cases "followsKey k")
    case True
    with 9 show ?thesis by auto
  next
    case False
    with 9 show ?thesis by simp
  qed
qed auto

lemma step_ok_json_hook: "step_ok (extractImagesFromJson_hook v path b)"
  by (simp add: step_okI json_hook_inv json_hook_mono)

lemma step_ok_case:
  "(\<And>s. step_ok (g s)) \<Longrightarrow> step_ok (\<lambda>st. case x of None \<Rightarrow> st | Some s \<Rightarrow> g s st)"
  by (cases x) (simp_all add: step_ok_id)

lemma step_ok_passes:
  "step_ok (extractFromImgTags e doc b)"
  "step_ok (extractFromBackgroundImages doc b)"
  "step_ok (extractFromMetaTags doc b)"
  "step_ok (extractFromStructuredData e doc b)"
  unfolding extractFromImgTags_def extractFromBackgroundImages_def extractFromMetaTags_def
    extractFromStructuredData_def
  by (auto intro!: step_ok_fold step_ok_case step_ok_add step_ok_json)

lemma step_ok_passes_hook:
  "step_ok (imgTags_hook e doc b)"
  "step_ok (backgroundImages_hook doc b)"
  "step_ok (metaTags_hook doc b)"
  "step_ok (structuredData_hook e doc b)"
  "step_ok (ecommerce_hook e doc b)"
  unfolding imgTags_hook_def backgroundImages_hook_def metaTags_hook_def
    structuredData_hook_def ecommerce_hook_def
  by (auto intro!: step_ok_fold step_ok_case step_ok_add step_ok_json_hook)

lemma firstTruthy_nonempty: "firstTruthy xs = Some s \<Longrightarrow> s \<noteq> []"
  by (induction xs rule: firstTruthy.induct) (auto split: if_splits)

lemma convert_nonempty: "s \<noteq> [] \<Longrightarrow> convertToAbsoluteUrl s b \<noteq> []"
  by (simp add: convertToAbsoluteUrl_def)

lemma fold_mem:
  "x \<in> set xs \<Longrightarrow> (\<And>st. a \<in> set (fst (f x st))) \<Longrightarrow>
   (\<And>y st. set (fst st) \<subseteq> set (fst (f y st))) \<Longrightarrow> a \<in> set (fst (fold f xs st))"
proof (induction xs arbitrary: st)
  case Nil
  then show ?case by simp
next
  case (Cons y ys)
  note step = Cons.prems(3)
  have mono: "set (fst st') \<subseteq> set (fst (fold f ys st'))" for st'
  proof (induction ys arbitrary: st')
    case Nil
    show ?case by simp
  next
    case (Cons z zs)
    have "set (fst st') \<subseteq> set (fst (f z st'))" by (rule step)
    also have "\<dots> \<subseteq> set (fst (fold f zs (f z st')))" by (rule Cons.IH)
    finally show ?case by simp
  qed
  show ?case
  proof (cases "x = y")
    case True
    then have "a \<in> set (fst (f y st))" using Cons.prems(2) by simp
    then show ?thesis using mono [of "f y st"] by auto
  next
    case False
    with Cons.prems(1) have "x \<in> set ys" by simp
    from Cons.IH [OF this Cons.prems(2) Cons.prems(3)] show ?thesis by simp
  qed
qed

lemma once:
  fixes st :: "string list \<times> 'a ExtractedImage_scheme list"
  assumes "cand_inv st" and "a \<in> set (fst st)"
  shows "length (filter (\<lambda>c. src c = a) (snd st)) = 1"
proof -
  have d: "distinct (map src (snd st))" and m: "a \<in> set (map src (snd st))"
    using assms by (simp_all add: cand_inv_def)
  have "length (filter (\<lambda>c. src c = a) (snd st)) = length (filter (\<lambda>y. y = a) (map src (snd st)))"
    by (simp add: length_filter_map comp_def)
  also have "\<dots> = card ({y. y = a} \<inter> set (map src (snd st)))"
    using d by (rule distinct_length_filter)
  also have "{y. y = a} \<inter> set (map src (snd st)) = {a}"
    using m by auto
  finally show ?thesis by simp
qed

lemma img_step_mem:
  assumes "imgSource x = Some s"
  shows "convertToAbsoluteUrl s b \<in> set (fst (case imgSource x of None \<Rightarrow> st
            | Some s' \<Rightarrow> addCandidate (convertToAbsoluteUrl s' b) (mk s') st))"
proof -
  have "s \<noteq> []" using assms firstTruthy_nonempty unfolding imgSource_def by blast
  then have "convertToAbsoluteUrl s b \<noteq> []" by (rule convert_nonempty)
  then show ?thesis by (simp add: assms addCandidate_mem)
qed

lemma img_step_mono:
  "set (fst st) \<subseteq> set (fst (case imgSource y of None \<Rightarrow> st
            | Some s' \<Rightarrow> addCandidate (convertToAbsoluteUrl s' b) (mk y s') st))"
  by (cases "imgSource y") (simp_all add: addCandidate_mono)

lemma img_pass_mem:
  assumes "x \<in> set (doc_imgs doc)" and "imgSource x = Some s"
  shows "convertToAbsoluteUrl s b \<in> set (fst (extractFromImgTags e doc b st))"
    and "convertToAbsoluteUrl s b \<in> set (fst (imgTags_hook e doc b st'))"
proof -
  show "convertToAbsoluteUrl s b \<in> set (fst (extractFromImgTags e doc b st))"
    unfolding extractFromImgTags_def
    by (rule fold_mem [OF assms(1)]) (rule img_step_mem [OF assms(2)], rule img_step_mono)
  show "convertToAbsoluteUrl s b \<in> set (fst (imgTags_hook e doc b st'))"
    unfolding imgTags_hook_def
    by (rule fold_mem [OF assms(1)]) (rule img_step_mem [OF assms(2)], rule img_step_mono)
qed

lemma step_okD1: "step_ok f \<Longrightarrow> cand_inv st \<Longrightarrow> cand_inv (f st)"
  unfolding step_ok_def by blast

lemma step_okD2: "step_ok f \<Longrightarrow> a \<in> set (fst st) \<Longrightarrow> a \<in> set (fst (f st))"
  unfolding step_ok_def by blast

lemma cand_inv_empty: "cand_inv ([], [])"
  by (simp add: cand_inv_def)

lemma collect_inv: "cand_inv (collectCandidates e doc b)"
  unfolding collectCandidates_def
  by (rule step_okD1 [OF step_ok_passes(4)], rule step_okD1 [OF step_ok_passes(3)],
      rule step_okD1 [OF step_ok_passes(2)], rule step_okD1 [OF step_ok_passes(1)],
      rule cand_inv_empty)

lemma collect_hook_inv: "cand_inv (collectCandidates_hook e doc b)"
  unfolding collectCandidates_hook_def
  by (rule step_okD1 [OF step_ok_passes_hook(5)], rule step_okD1 [OF step_ok_passes_hook(4)],
      rule step_okD1 [OF step_ok_passes_hook(3)], rule step_okD1 [OF step_ok_passes_hook(2)],
      rule step_okD1 [OF step_ok_passes_hook(1)], rule cand_inv_empty)

lemma collect_mem:
  assumes "x \<in> set (doc_imgs doc)" and "imgSource x = Some s"
  shows "convertToAbsoluteUrl s b \<in> set (fst (collectCandidates e doc b))"
    and "convertToAbsoluteUrl s b \<in> set (fst (collectCandidates_hook e doc b))"
proof -
  note m = img_pass_mem [OF assms]
  show "convertToAbsoluteUrl s b \<in> set (fst (collectCandidates e doc b))"
    unfolding collectCandidates_def
    by (rule step_okD2 [OF step_ok_passes(4)], rule step_okD2 [OF step_ok_passes(3)],
        rule step_okD2 [OF step_ok_passes(2)], rule m(1))
  show "convertToAbsoluteUrl s b \<in> set (fst (collectCandidates_hook e doc b))"
    unfolding collectCandidates_hook_def
    by (rule step_okD2 [OF step_ok_passes_hook(5)], rule step_okD2 [OF step_ok_passes_hook(4)],
        rule step_okD2 [OF step_ok_passes_hook(3)], rule step_okD2 [OF step_ok_passes_hook(2)],
        rule m(2))
qed

text \<open>
  C9: in both extractors the candidate list collected from a page holds no absolute URL
  twice; every \<^verbatim>\<open>img\<close> element that has a source contributes its absolute URL, which then
  occurs exactly once among the candidates, however many elements resolve to it; in
  particular an element with the URL in \<^verbatim>\<open>src\<close> and another with the same URL in
  \<^verbatim>\<open>data-src\<close> and no \<^verbatim>\<open>src\<close> resolve to the same source.
\<close>

theorem C9_candidates_deduplicated:
  "distinct (map src (snd (collectCandidates e doc b))) \<and>
   distinct (map src (snd (collectCandidates_hook e doc b))) \<and>
   (\<forall>x \<in> set (doc_imgs doc). \<forall>s. imgSource x = Some s \<longrightarrow>
      length (filter (\<lambda>c. src c = convertToAbsoluteUrl s b) (snd (collectCandidates e doc b))) = 1 \<and>
      length (filter (\<lambda>c. src c = convertToAbsoluteUrl s b) (snd (collectCandidates_hook e doc b))) = 1) \<and>
   (\<forall>x y u. u \<noteq> [] \<and> el_src x = u \<and> el_src y = [] \<and> getAttribute y ''data-src'' = Some u \<longrightarrow>
      imgSource x = Some u \<and> imgSource y = Some u)"
proof (intro conjI ballI allI impI)
  show "distinct (map src (snd (collectCandidates e doc b)))"
    using collect_inv [of e doc b] by (simp add: cand_inv_def)
  show "distinct (map src (snd (collectCandidates_hook e doc b)))"
    using collect_hook_inv [of e doc b] by (simp add: cand_inv_def)
next
  fix x s assume x: "x \<in> set (doc_imgs doc)" and s: "imgSource x = Some s"
  show "length (filter (\<lambda>c. src c = convertToAbsoluteUrl s b) (snd (collectCandidates e doc b))) = 1"
    by (rule once [OF collect_inv collect_mem(1) [OF x s]])
  show "length (filter (\<lambda>c. src c = convertToAbsoluteUrl s b) (snd (collectCandidates_hook e doc b))) = 1"
    by (rule once [OF collect_hook_inv collect_mem(2) [OF x s]])
next
  fix x y :: element and u
  assume h: "u \<noteq> [] \<and> el_src x = u \<and> el_src y = [] \<and> getAttribute y ''data-src'' = Some u"
  then show "imgSource x = Some u" by (auto simp: imgSource_def)
  from h show "imgSource y = Some u" by (auto simp: imgSource_def)
qed

theorem C9_candidates_deduplicated_witness:
  "map src (snd (collectCandidates env_down page_two_imgs \<lparr>protocol = ''https:'', host = ''site.com''\<rparr>))
     = [''https://site.com/a.jpg''] \<and>
   length (filter (\<lambda>c. src c = ''https://site.com/a.jpg'')
     (snd (collectCandidates_hook env_down page_two_imgs \<lparr>protocol = ''https:'', host = ''site.com''\<rparr>))) = 1"
proof -
  let ?b = "\<lparr>protocol = ''https:'', host = ''site.com''\<rparr>"
  let ?x = "\<lparr>attrs = [(''src'', ''https://site.com/a.jpg'')], el_src = ''https://site.com/a.jpg'',
          el_alt = [], naturalWidth = 0, naturalHeight = 0\<rparr>"
  let ?y = "\<lparr>attrs = [(''data-src'', ''https://site.com/a.jpg'')], el_src = [],
          el_alt = [], naturalWidth = 0, naturalHeight = 0\<rparr>"
  have mem: "?y \<in> set (doc_imgs page_two_imgs)"
    by (simp add: page_two_imgs_def)
  have h: "''https://site.com/a.jpg'' \<noteq> [] \<and> el_src ?x = ''https://site.com/a.jpg'' \<and> el_src ?y = [] \<and>
           getAttribute ?y ''data-src'' = Some ''https://site.com/a.jpg''"
    by (simp add: getAttribute_def)
  note c9 = C9_candidates_deduplicated [of env_down page_two_imgs ?b]
  from c9 h have sy: "imgSource ?y = Some ''https://site.com/a.jpg''" by blast
  have conv: "convertToAbsoluteUrl ''https://site.com/a.jpg'' ?b = ''https://site.com/a.jpg''"
    by (simp add: convertToAbsoluteUrl_def)
  from c9 mem sy have
    "length (filter (\<lambda>c. src c = convertToAbsoluteUrl ''https://site.com/a.jpg'' ?b)
       (snd (collectCandidates_hook env_down page_two_imgs ?b))) = 1"
    by blast
  then have 2: "length (filter (\<lambda>c. src c = ''https://site.com/a.jpg'')
       (snd (collectCandidates_hook env_down page_two_imgs ?b))) = 1"
    by (simp only: conv)
  have 1: "map src (snd (collectCandidates env_down page_two_imgs ?b)) = [''https://site.com/a.jpg'']"
    by (simp add: collectCandidates_def extractFromImgTags_def extractFromBackgroundImages_def
          extractFromMetaTags_def extractFromStructuredData_def page_two_imgs_def imgSource_def
          getAttribute_def addCandidate_def convertToAbsoluteUrl_def elementsWithBg_def)
  from 1 2 show ?thesis by simp
qed

section \<open>Properties of the reachability resolver and the image service\<close>

lemma testImageUrl_props:
  assumes ok: "url_cache_ok w" and run: "testImageUrl e u w = (r, w')"
  shows "url_cache_ok w' \<and> set (head_requests w) \<subseteq> set (head_requests w') \<and> (r \<longrightarrow> probed w' u)"
proof -
  obtain cached c where gc: "get_cache (clock w) u (imageUrlCache w) = (cached, c)"
    by (cases "get_cache (clock w) u (imageUrlCache w)")
  have sub: "fmlookup (cache c) k = Some entry \<Longrightarrow> fmlookup (cache (imageUrlCache w)) k = Some entry"
    for k entry
    using gc by (auto simp: get_cache_def split: option.splits if_splits)
  show ?thesis
  proof (cases cached)
    case (Some b)
    with gc run have r: "r = b" and w': "w' = w\<lparr>imageUrlCache := c\<rparr>"
      by (auto simp: testImageUrl_def)
    from gc Some obtain entry where "fmlookup (cache (imageUrlCache w)) u = Some entry" "data entry = b"
      by (auto simp: get_cache_def split: option.splits if_splits)
    with ok have "b \<longrightarrow> (u, True) \<in> set (head_requests w)"
      unfolding url_cache_ok_def by blast
    moreover have "url_cache_ok w'"
      using ok sub unfolding w' url_cache_ok_def by fastforce
    ultimately show ?thesis using r w' by (simp add: probed_def)
  next
    case None
    obtain b dt where h: "http_head e (clock w) u = (b, dt)"
      by (cases "http_head e (clock w) u")
    from gc None h run have r: "r = b"
      and w': "w' = w\<lparr>clock := clock w + dt,
                  imageUrlCache := set_cache (clock w + dt) u b None c,
                  head_requests := head_requests w @ [(u, b)]\<rparr>"
      by (auto simp: testImageUrl_def)
    have "url_cache_ok w'"
      unfolding url_cache_ok_def
    proof (intro allI impI)
      fix k entry
      assume a: "fmlookup (cache (imageUrlCache w')) k = Some entry \<and> data entry"
      show "(k, True) \<in> set (head_requests w')"
      proof (cases "k = u")
        case True
        with a show ?thesis by (auto simp: w' set_cache_def Let_def)
      next
        case False
        with a have "fmlookup (cache c) k = Some entry" by (auto simp: w' set_cache_def Let_def)
        then have "fmlookup (cache (imageUrlCache w)) k = Some entry" by (rule sub)
        with ok a have "(k, True) \<in> set (head_requests w)" unfolding url_cache_ok_def by blast
        then show ?thesis by (simp add: w')
      qed
    qed
    then show ?thesis using r w' by (auto simp: probed_def)
  qed
qed

lemma firstWorking_props:
  "url_cache_ok w \<Longrightarrow> firstWorking e vs w = (r, w') \<Longrightarrow>
   url_cache_ok w' \<and> set (head_requests w) \<subseteq> set (head_requests w') \<and>
   (\<forall>v. r = Some v \<longrightarrow> probed w' v)"
proof (induction vs arbitrary: w)
  case Nil
  then show ?case by auto
next
  case (Cons v vs)
  obtain b w1 where t: "testImageUrl e v w = (b, w1)" by (cases "testImageUrl e v w")
  note p = testImageUrl_props [OF Cons.prems(1) t]
  show ?case
  proof (cases b)
    case True
    with Cons.prems(2) t have "r = Some v" "w' = w1" by auto
    with p True show ?thesis by simp
  next
    case False
    with Cons.prems(2) t have "firstWorking e vs w1 = (r, w')" by auto
    from Cons.IH [OF _ this] p show ?thesis by auto
  qed
qed

lemma getWorkingImageUrl_props:
  "url_cache_ok w \<Longrightarrow> getWorkingImageUrl e u w = (r, w') \<Longrightarrow>
   url_cache_ok w' \<and> set (head_requests w) \<subseteq> set (head_requests w') \<and>
   (\<forall>v. r = Some v \<longrightarrow> probed w' v)"
  unfolding getWorkingImageUrl_def by (rule firstWorking_props)

lemma loadImageDimensions_frame:
  "loadImageDimensions e u w = (r, w') \<Longrightarrow>
   head_requests w' = head_requests w \<and> imageUrlCache w' = imageUrlCache w"
  by (auto simp: loadImageDimensions_def split: prod.splits option.splits)

lemma retryLoop_frame:
  "retryLoop e s t M r le w = (res, le', w') \<Longrightarrow>
   head_requests w' = head_requests w \<and> imageUrlCache w' = imageUrlCache w"
proof (induction e s t M r le w rule: retryLoop.induct)
  case (1 e service target maxRetries retry lastError w)
  show ?case
  proof (cases "retry < maxRetries")
    case False
    with "1.prems" show ?thesis by (simp add: retryLoop.simps)
  next
    case True
    obtain resp dt where g: "http_get e (clock w) (url_of service target) = (resp, dt)"
      by (cases "http_get e (clock w) (url_of service target)")
    show ?thesis
    proof (cases "attempt e service resp")
      case (Inr v)
      with True g "1.prems" show ?thesis
        by (auto simp: retryLoop.simps [of e service target maxRetries retry])
    next
      case (Inl msg)
      from True g Inl "1.prems" "1.IH" [OF True g [symmetric] Inl]
      show ?thesis
        by (simp add: retryLoop.simps [of e service target maxRetries retry])
    qed
  qed
qed

lemma serviceLoop_frame:
  "serviceLoop e ss t M le w = (res, le', w') \<Longrightarrow>
   head_requests w' = head_requests w \<and> imageUrlCache w' = imageUrlCache w"
proof (induction ss arbitrary: le w)
  case Nil
  then show ?case by simp
next
  case (Cons s ss)
  obtain res1 le1 w1 where r1: "retryLoop e s t M 0 le w = (res1, le1, w1)"
    by (cases "retryLoop e s t M 0 le w") auto
  note f1 = retryLoop_frame [OF r1]
  show ?case
  proof (cases res1)
    case None
    with Cons.prems r1 have "serviceLoop e ss t M le1 w1 = (res, le', w')" by simp
    from Cons.IH [OF this] f1 show ?thesis by simp
  next
    case (Some v)
    with Cons.prems r1 have "w' = w1" by simp
    with f1 show ?thesis by simp
  qed
qed

lemma fetch_frame:
  assumes "fetchWithCorsProxy e t M w = (r, w')"
  shows "head_requests w' = head_requests w \<and> imageUrlCache w' = imageUrlCache w"
proof -
  obtain cached hc where gc: "get_cache (clock w) t (htmlCache w) = (cached, hc)"
    by (cases "get_cache (clock w) t (htmlCache w)")
  let ?hit = "(case cached of None \<Rightarrow> None | Some v \<Rightarrow> if truthy v then Some v else None)"
  show ?thesis
  proof (cases ?hit)
    case (Some v)
    with assms gc show ?thesis by (auto simp: fetchWithCorsProxy_def)
  next
    case None
    obtain res le w1 where sl: "serviceLoop e (corsProxyServices e) t M None (w\<lparr>htmlCache := hc\<rparr>) = (res, le, w1)"
      by (cases "serviceLoop e (corsProxyServices e) t M None (w\<lparr>htmlCache := hc\<rparr>)") auto
    from assms gc None sl have "w' = w1"
      by (auto simp: fetchWithCorsProxy_def split: option.splits)
    with serviceLoop_frame [OF sl] show ?thesis by simp
  qed
qed

lemma url_cache_ok_frame:
  "head_requests w' = head_requests w \<and> imageUrlCache w' = imageUrlCache w \<Longrightarrow>
   url_cache_ok w \<Longrightarrow> url_cache_ok w'"
  by (simp add: url_cache_ok_def)

lemma probed_frame:
  "head_requests w' = head_requests w \<and> imageUrlCache w' = imageUrlCache w \<Longrightarrow>
   probed w u \<Longrightarrow> probed w' u"
  by (simp add: probed_def)

lemma probed_mono: "set (head_requests w) \<subseteq> set (head_requests w') \<Longrightarrow> probed w u \<Longrightarrow> probed w' u"
  by (auto simp: probed_def)

lemma qualityLoop_props:
  "url_cache_ok w \<Longrightarrow> (\<forall>q \<in> set acc. probed w (src q)) \<Longrightarrow>
   qualityLoop e minW minH maxR imgs acc w = (res, w') \<Longrightarrow>
   url_cache_ok w' \<and> (\<forall>q \<in> set res. probed w' (src q))"
proof (induction imgs arbitrary: acc w)
  case Nil
  then show ?case by simp
next
  case (Cons img rest)
  obtain r w1 where g: "getWorkingImageUrl e (src img) w = (r, w1)"
    by (cases "getWorkingImageUrl e (src img) w")
  note p = getWorkingImageUrl_props [OF Cons.prems(1) g]
  then have ok1: "url_cache_ok w1" and mono1: "set (head_requests w) \<subseteq> set (head_requests w1)"
    by simp_all
  have acc1: "\<forall>q \<in> set acc. probed w1 (src q)"
    using Cons.prems(2) probed_mono [OF mono1] by blast
  show ?case
  proof (cases r)
    case None
    with Cons.prems(3) g have "qualityLoop e minW minH maxR rest acc w1 = (res, w')" by simp
    from Cons.IH [OF ok1 acc1 this] show ?thesis .
  next
    case (Some workingUrl)
    with p have pw: "probed w1 workingUrl" by simp
    define step where "step =
       (if \<not> truthyNum (width img) \<or> \<not> truthyNum (height img)
        then (case loadImageDimensions e workingUrl w1 of
                (Some (dw, dh), w2) \<Rightarrow> (img\<lparr>src := workingUrl, width := Some dw, height := Some dh\<rparr>, w2)
              | (None, w2) \<Rightarrow> (img\<lparr>src := workingUrl\<rparr>, w2))
        else (img\<lparr>src := workingUrl\<rparr>, w1))"
    obtain img' w2 where st: "step = (img', w2)" by (cases step)
    obtain d wd where ld: "loadImageDimensions e workingUrl w1 = (d, wd)"
      by (cases "loadImageDimensions e workingUrl w1")
    have fr: "head_requests w2 = head_requests w1 \<and> imageUrlCache w2 = imageUrlCache w1"
      and si: "src img' = workingUrl"
      using st loadImageDimensions_frame [OF ld] ld
      unfolding step_def by (auto split: if_splits option.splits prod.splits)
    have ok2: "url_cache_ok w2" using url_cache_ok_frame [OF fr ok1] .
    define acc' where "acc' =
       (if isQualityImage img' minW minH then acc @ [img'\<lparr>source := Some from_web_extraction\<rparr>] else acc)"
    have acc2: "\<forall>q \<in> set acc'. probed w2 (src q)"
      using acc1 pw si probed_frame [OF fr] unfolding acc'_def by auto
    from Cons.prems(3) g Some st
    have res: "(if int (length acc') \<ge> maxR then (acc', w2)
                else qualityLoop e minW minH maxR rest acc' w2) = (res, w')"
      unfolding step_def acc'_def by (simp add: Let_def)
    show ?thesis
    proof (cases "int (length acc') \<ge> maxR")
      case True
      with res have "res = acc'" "w' = w2" by simp_all
      with ok2 acc2 show ?thesis by simp
    next
      case False
      with res have "qualityLoop e minW minH maxR rest acc' w2 = (res, w')" by simp
      from Cons.IH [OF ok2 acc2 this] show ?thesis .
    qed
  qed
qed

lemma processImageUrl_props:
  assumes ok: "url_cache_ok w" and run: "processImageUrl e u w = (Inr img, w')"
  shows "probed w' (src img) \<and> url_cache_ok w'"
proof -
  obtain r w1 where g: "getWorkingImageUrl e u w = (r, w1)"
    by (cases "getWorkingImageUrl e u w")
  note p = getWorkingImageUrl_props [OF ok g]
  from run g obtain workingUrl where r: "r = Some workingUrl"
    by (cases r) (auto simp: processImageUrl_def split: if_splits)
  obtain d w2 where ld: "loadImageDimensions e workingUrl w1 = (d, w2)"
    by (cases "loadImageDimensions e workingUrl w1")
  from run g r ld have "src img = workingUrl" and "w' = w2"
    by (auto simp: processImageUrl_def split: if_splits)
  with p r loadImageDimensions_frame [OF ld] show ?thesis
    using url_cache_ok_frame probed_frame by blast
qed

text \<open>
  C1, as stated: \<^verbatim>\<open>searchUnsplash\<close> returns the descriptor of a photo, and \<^verbatim>\<open>uploadImage\<close> the
  descriptor of a file, without any HEAD request having been made.
\<close>

theorem C1_search_and_upload_unprobed:
  "fst (searchUnsplash env_one_photo
          \<lparr>query = ''cat'', page = None, perPage = None, orientation = None\<rparr> (initial_world 0))
     = Inr [\<lparr>src = ''https://images.unsplash.com/photo-1'', alt = ''a cat'',
             width = Some 4000, height = Some 3000, source = Some from_unsplash\<rparr>] \<and>
   head_requests (snd (searchUnsplash env_one_photo
          \<lparr>query = ''cat'', page = None, perPage = None, orientation = None\<rparr> (initial_world 0))) = [] \<and>
   \<not> probed (snd (searchUnsplash env_one_photo
          \<lparr>query = ''cat'', page = None, perPage = None, orientation = None\<rparr> (initial_world 0)))
        ''https://images.unsplash.com/photo-1'' \<and>
   fst (uploadImage \<lparr>upload_file = cat_file, opt_maxSize = None, opt_allowedTypes = None\<rparr>
          (initial_world 0))
     = Inr \<lparr>src = ''data:image/png;base64,iVBORw0KGgo='', alt = ''cat'',
            width = Some 640, height = Some 480, source = Some from_upload\<rparr> \<and>
   head_requests (snd (uploadImage \<lparr>upload_file = cat_file, opt_maxSize = None, opt_allowedTypes = None\<rparr>
          (initial_world 0))) = []"
  by (simp add: searchUnsplash_def uploadImage_def env_one_photo_def env_down_def keyOf_def
        initial_world_def photoToImageSource_def probed_def cat_file_def
        DEFAULT_ALLOWED_TYPES_def DEFAULT_MAX_FILE_SIZE_def stripExtension_def Let_def)

text \<open>
  C1, amended: every descriptor that \<^verbatim>\<open>processImageUrl\<close> or \<^verbatim>\<open>extractImagesFromPage\<close> returns
  has a \<open>src\<close> for which a HEAD request of \<^verbatim>\<open>testImageUrl\<close> has resolved before the descriptor
  is returned, given that the positive verdicts already in the reachability cache come from
  such requests (as they do from the start, when the cache is empty). \<^verbatim>\<open>searchUnsplash\<close> and
  \<^verbatim>\<open>uploadImage\<close> return their descriptors without a probe.
\<close>

theorem C1_probed_descriptors:
  assumes "url_cache_ok w"
  shows "(\<forall>img w'. processImageUrl e u w = (Inr img, w') \<longrightarrow>
            probed w' (src img) \<and> url_cache_ok w') \<and>
         (\<forall>imgs w'. extractImagesFromPage e options w = (Inr imgs, w') \<longrightarrow>
            (\<forall>img \<in> set imgs. probed w' (src img)) \<and> url_cache_ok w') \<and>
         url_cache_ok (initial_world t0)"
proof (intro conjI allI impI)
  fix img w' assume "processImageUrl e u w = (Inr img, w')"
  from processImageUrl_props [OF assms this]
  show "probed w' (src img)" and "url_cache_ok w'" by simp_all
next
  show "url_cache_ok (initial_world t0)"
    by (simp add: url_cache_ok_def initial_world_def SimpleCache_def)
next
  fix imgs w' assume run: "extractImagesFromPage e options w = (Inr imgs, w')"
  let ?u = "page_url options"
  from run obtain b where b: "parse_url e ?u = Some b"
    by (cases "parse_url e ?u") (auto simp: extractImagesFromPage_def Let_def)
  have "(\<forall>img \<in> set imgs. probed w' (src img)) \<and> url_cache_ok w'"
  proof (cases "isDirectImageUrl ?u")
    case True
    obtain r w1 where pr: "processImageUrl e ?u w = (r, w1)"
      by (cases "processImageUrl e ?u w")
    from run b True pr obtain img where "r = Inr img" "imgs = [img]" "w' = w1"
      by (cases r) (auto simp: extractImagesFromPage_def Let_def)
    with processImageUrl_props [OF assms] pr show ?thesis by simp
  next
    case False
    obtain r w1 where f: "fetchWithCorsProxy e ?u 3 w = (r, w1)"
      by (cases "fetchWithCorsProxy e ?u 3 w")
    from run b False f obtain htmlContent where r: "r = Inr htmlContent"
      by (cases r) (auto simp: extractImagesFromPage_def Let_def)
    have ok1: "url_cache_ok w1"
      using url_cache_ok_frame [OF fetch_frame [OF f] assms] .
    from run b False f r obtain minW minH maxR where
      "qualityLoop e minW minH maxR (snd (collectCandidates e (parse_html e htmlContent) b)) [] w1 = (imgs, w')"
      by (auto simp: extractImagesFromPage_def Let_def split: prod.splits)
    from qualityLoop_props [OF ok1 _ this] show ?thesis by simp
  qed
  then show "\<forall>img \<in> set imgs. probed w' (src img)" and "url_cache_ok w'" by simp_all
qed

theorem C1_probed_descriptors_witness:
  "\<exists>img w'. processImageUrl env_reachable ''https://site.com/a.jpg'' (initial_world 0) = (Inr img, w') \<and>
      src img = ''https://site.com/a.jpg'' \<and> probed w' ''https://site.com/a.jpg''"
proof -
  have ok: "url_cache_ok (initial_world 0)"
    by (simp add: url_cache_ok_def initial_world_def SimpleCache_def)
  obtain r w' where run: "processImageUrl env_reachable ''https://site.com/a.jpg'' (initial_world 0) = (r, w')"
    by (cases "processImageUrl env_reachable ''https://site.com/a.jpg'' (initial_world 0)")
  have "map_sum id src (fst (processImageUrl env_reachable ''https://site.com/a.jpg'' (initial_world 0)))
          = Inr ''https://site.com/a.jpg''"
    by (simp add: processImageUrl_def env_reachable_def env_down_def getWorkingImageUrl_def
          urlVariations_def testImageUrl_def get_cache_def initial_world_def SimpleCache_def
          loadImageDimensions_def toLowerCase_def lowerChar_def split: prod.splits)
  with run obtain img where r: "r = Inr img" and s: "src img = ''https://site.com/a.jpg''"
    by (cases r) auto
  from C1_probed_descriptors [OF ok, of env_reachable "''https://site.com/a.jpg''"] run r
  have "probed w' (src img)" by blast
  with run r s show ?thesis by auto
qed

section \<open>Properties of the AI content generator\<close>

lemma parseAll_length: "parseAll f xs = Some ys \<Longrightarrow> length ys = length xs"
  by (induction xs arbitrary: ys) (auto split: option.splits)

lemma aiSlideSchema_Some_iff:
  "aiSlideSchema x \<noteq> None \<longleftrightarrow>
   (\<exists>ps t q. x = JObj ps \<and> map_of ps ''text'' = Some (JStr t) \<and> map_of ps ''imageQuery'' = Some (JStr q))"
  by (auto simp: aiSlideSchema_def split: jsval.splits option.splits)


lemma parseAll_ok_iff: "parseAll f xs \<noteq> None \<longleftrightarrow> (\<forall>x \<in> set xs. f x \<noteq> None)"
  by (induction xs) (auto split: option.splits)

lemma aiResponseSchema_iff:
  "aiResponseSchema n content \<noteq> None \<longleftrightarrow> spec_exact_slides n content"
proof (cases content)
  case (JObj kvs)
  show ?thesis
  proof (cases "map_of kvs ''slides''")
    case None
    with JObj show ?thesis by (simp add: aiResponseSchema_def spec_exact_slides_def)
  next
    case (Some v)
    show ?thesis
    proof (cases v)
      case (JArr xs)
      have P: "parseAll aiSlideSchema xs \<noteq> None \<longleftrightarrow> (\<forall>x \<in> set xs. aiSlideSchema x \<noteq> None)"
        by (rule parseAll_ok_iff)
      have L: "aiResponseSchema n content \<noteq> None \<longleftrightarrow>
                 parseAll aiSlideSchema xs \<noteq> None \<and> int (length xs) = n"
        by (cases "parseAll aiSlideSchema xs") (auto simp: aiResponseSchema_def JObj Some JArr)
      have R: "spec_exact_slides n content \<longleftrightarrow>
                 int (length xs) = n \<and> (\<forall>x \<in> set xs. aiSlideSchema x \<noteq> None)"
        by (simp add: spec_exact_slides_def aiSlideSchema_Some_iff JObj Some JArr del: not_None_eq)
      show ?thesis unfolding L R P by blast
    qed (simp_all add: aiResponseSchema_def spec_exact_slides_def JObj Some)
  qed
qed (simp_all add: aiResponseSchema_def spec_exact_slides_def)


lemma generate_after_reply:
  assumes "hasApiConfig e model"
    and "ai_post e (clock w) model theme n = (JsonResponse True statusText txt (Inr json), dt)"
    and "completionText model json = Some x"
    and "parseContent e x = Some content"
  shows "generateCarouselContent e theme model n w =
           (case aiResponseSchema n content of
              None \<Rightarrow> (Inl FormatMismatch, w\<lparr>clock := clock w + dt\<rparr>)
            | Some slides \<Rightarrow>
                (Inr (slidesWithImages e (clock w + dt) slides),
                 w\<lparr>clock := clock w + dt + lookupsTime e (clock w + dt) slides,
                   image_queries := image_queries w @ map imageQuery slides\<rparr>))"
  unfolding generateCarouselContent_def Let_def using assms
  by (cases "aiResponseSchema n content") simp_all


lemma generate_error_no_search:
  assumes "fst (generateCarouselContent e theme model n w) = Inl err"
  shows "image_queries (snd (generateCarouselContent e theme model n w)) = image_queries w"
proof (cases "hasApiConfig e model")
  case False
  then show ?thesis by (simp add: generateCarouselContent_def)
next
  case cfg: True
  obtain resp dt where a: "ai_post e (clock w) model theme n = (resp, dt)"
    by (cases "ai_post e (clock w) model theme n")
  show ?thesis
  proof (cases resp)
    case (JsonRejected x)
    with cfg a show ?thesis by (simp add: generateCarouselContent_def)
  next
    case (JsonResponse ok statusText tx js)
    show ?thesis
    proof (cases "ok \<and> (\<exists>json. js = Inr json)")
      case False
      with cfg a JsonResponse show ?thesis
        by (cases tx; cases js) (auto simp: generateCarouselContent_def Let_def)
    next
      case True
      then obtain json where ok: ok and js: "js = Inr json" by blast
      show ?thesis
      proof (cases "completionText model json")
        case None
        with cfg a JsonResponse ok js show ?thesis
          by (simp add: generateCarouselContent_def Let_def)
      next
        case (Some x)
        show ?thesis
        proof (cases "parseContent e x")
          case None
          with cfg a JsonResponse ok js Some show ?thesis
            by (simp add: generateCarouselContent_def Let_def)
        next
          case content: (Some content)
          have a': "ai_post e (clock w) model theme n = (JsonResponse True statusText tx (Inr json), dt)"
            using a JsonResponse ok js by simp
          note g = generate_after_reply [OF cfg a' Some content]
          show ?thesis
          proof (cases "aiResponseSchema n content")
            case None
            with g ok show ?thesis by simp
          next
            case (Some slides)
            with g ok assms show ?thesis by simp
          qed
        qed
      qed
    qed
  qed
qed

lemma env_ai_facts:
  "hasApiConfig (env_ai c) ''OpenAI''"
  "ai_post (env_ai c) t ''OpenAI'' th n =
     (JsonResponse True ''OK'' (Inr [])
        (Inr (JObj [(''choices'', JArr [JObj [(''message'', JObj [(''content'', JStr ''completion'')])]])])), 7)"
  "completionText ''OpenAI''
     (JObj [(''choices'', JArr [JObj [(''message'', JObj [(''content'', JStr ''completion'')])]])])
     = Some (JStr ''completion'')"
  "parseContent (env_ai c) (JStr ''completion'') = Some c"
  by (simp_all add: env_ai_def env_down_def hasApiConfig_def keyOf_def completionText_def
        readProp_def index0_def getProp_def parseContent_def)

text \<open>
  C2, as stated: a reply with one slide whose \<^verbatim>\<open>text\<close> and \<^verbatim>\<open>imageQuery\<close> are empty strings
  passes validation for \<open>slideCount = 1\<close>, and the generation returns that slide.
\<close>

theorem C2_empty_strings_accepted:
  "fst (generateCarouselContent (env_ai one_empty_slide) ''tema'' ''OpenAI'' 1 (initial_world 0))
     = Inr [\<lparr>slide_id = 1, text_of = [], imageUrl = placeholder_no_key\<rparr>]"
proof -
  have s: "aiResponseSchema 1 one_empty_slide = Some [\<lparr>slide_text = [], imageQuery = []\<rparr>]"
    by (simp add: aiResponseSchema_def one_empty_slide_def aiSlideSchema_def)
  have k: "keyOf (UNSPLASH_ACCESS_KEY (env_ai one_empty_slide)) = None"
    by (simp add: env_ai_def env_down_def keyOf_def)
  show ?thesis
    unfolding generate_after_reply [OF env_ai_facts(1) env_ai_facts(2) env_ai_facts(3) env_ai_facts(4)] s
    by (simp add: slidesWithImages_def fetchImageForQuery_def k)
qed

text \<open>
  C2, amended: once the provider has answered and the content has been parsed,
  \<^verbatim>\<open>generateCarouselContent\<close> fails with the schema-validation error exactly when the parsed
  JSON is not an object whose \<^verbatim>\<open>slides\<close> is an array of exactly \<open>slideCount\<close> objects, each
  with a string \<^verbatim>\<open>text\<close> and a string \<^verbatim>\<open>imageQuery\<close>; the strings may be empty.
\<close>

theorem C2_schema_validation:
  assumes "hasApiConfig e model"
    and "ai_post e (clock w) model theme slideCount = (JsonResponse True statusText tx (Inr json), dt)"
    and "completionText model json = Some x"
    and "parseContent e x = Some content"
  shows "fst (generateCarouselContent e theme model slideCount w) = Inl FormatMismatch
           \<longleftrightarrow> \<not> spec_exact_slides slideCount content"
proof (cases "aiResponseSchema slideCount content")
  case None
  then have "\<not> spec_exact_slides slideCount content"
    using aiResponseSchema_iff [of slideCount content] by simp
  with None show ?thesis
    unfolding generate_after_reply [OF assms] by simp
next
  case (Some slides)
  then have "spec_exact_slides slideCount content"
    using aiResponseSchema_iff [of slideCount content] by simp
  with Some show ?thesis
    unfolding generate_after_reply [OF assms] by simp
qed

lemma four_not_five: "\<not> spec_exact_slides 5 four_slides"
  by (simp add: spec_exact_slides_def four_slides_def)

theorem C2_schema_validation_witness:
  "fst (generateCarouselContent (env_ai four_slides) ''tema'' ''OpenAI'' 5 (initial_world 0))
     = Inl FormatMismatch"
proof -
  have 1: "hasApiConfig (env_ai four_slides) ''OpenAI''"
    by (rule env_ai_facts)
  have 2: "ai_post (env_ai four_slides) (clock (initial_world 0)) ''OpenAI'' ''tema'' 5 =
     (JsonResponse True ''OK'' (Inr [])
        (Inr (JObj [(''choices'', JArr [JObj [(''message'', JObj [(''content'', JStr ''completion'')])]])])), 7)"
    by (rule env_ai_facts)
  have 3: "parseContent (env_ai four_slides) (JStr ''completion'') = Some four_slides"
    by (rule env_ai_facts)
  from C2_schema_validation [OF 1 2 env_ai_facts(3) 3] four_not_five
  show ?thesis by simp
qed




lemma env_ai_search_facts:
  "hasApiConfig env_ai_search ''OpenAI''"
  "ai_post env_ai_search t ''OpenAI'' th n =
     (JsonResponse True ''OK'' (Inr [])
        (Inr (JObj [(''choices'', JArr [JObj [(''message'', JObj [(''content'', JStr ''completion'')])]])])), 7)"
  "parseContent env_ai_search (JStr ''completion'') = Some four_slides"
  "keyOf (UNSPLASH_ACCESS_KEY env_ai_search) = Some ''k''"
  by (simp_all add: env_ai_search_def env_ai_def env_down_def hasApiConfig_def keyOf_def
        parseContent_def)

lemma four_slides_parsed:
  "aiResponseSchema 4 four_slides =
     Some [\<lparr>slide_text = ''a'', imageQuery = ''one''\<rparr>, \<lparr>slide_text = ''b'', imageQuery = ''two''\<rparr>,
           \<lparr>slide_text = ''c'', imageQuery = ''three''\<rparr>, \<lparr>slide_text = ''d'', imageQuery = ''four''\<rparr>]"
  by (simp add: aiResponseSchema_def four_slides_def slide_json_def aiSlideSchema_def)


lemma short_array_rejected:
  assumes "content = JObj kvs" and "map_of kvs ''slides'' = Some (JArr xs)" and "length xs = 4"
  shows "aiResponseSchema 5 content = None"
  using assms by (cases "parseAll aiSlideSchema xs") (simp_all add: aiResponseSchema_def)

text \<open>
  C4: with \<open>slideCount = 5\<close> and a reply whose parsed content has a \<^verbatim>\<open>slides\<close> array of four
  elements, \<^verbatim>\<open>generateCarouselContent\<close> fails with the schema-validation error, and
  \<^verbatim>\<open>fetchImageForQuery\<close> is not called: the list of queries it has been called with is what
  it was before. The same holds whenever the generation fails, for whatever reason.
\<close>

theorem C4_no_image_search_on_failure:
  "(\<forall>statusText tx json dt x content kvs xs.
      hasApiConfig e model \<and>
      ai_post e (clock w) model theme 5 = (JsonResponse True statusText tx (Inr json), dt) \<and>
      completionText model json = Some x \<and> parseContent e x = Some content \<and>
      content = JObj kvs \<and> map_of kvs ''slides'' = Some (JArr xs) \<and> length xs = 4
      \<longrightarrow> fst (generateCarouselContent e theme model 5 w) = Inl FormatMismatch \<and>
          image_queries (snd (generateCarouselContent e theme model 5 w)) = image_queries w) \<and>
   (\<forall>err. fst (generateCarouselContent e theme model slideCount w) = Inl err
      \<longrightarrow> image_queries (snd (generateCarouselContent e theme model slideCount w)) = image_queries w)"
proof (intro conjI allI impI)
  fix statusText tx json dt x content kvs xs
  assume h: "hasApiConfig e model \<and>
      ai_post e (clock w) model theme 5 = (JsonResponse True statusText tx (Inr json), dt) \<and>
      completionText model json = Some x \<and> parseContent e x = Some content \<and>
      content = JObj kvs \<and> map_of kvs ''slides'' = Some (JArr xs) \<and> length xs = 4"
  then have "content = JObj kvs" and "map_of kvs ''slides'' = Some (JArr xs)" and "length xs = 4"
    by simp_all
  then have n: "aiResponseSchema 5 content = None"
    by (rule short_array_rejected)
  from h have g: "generateCarouselContent e theme model 5 w =
           (case aiResponseSchema 5 content of
              None \<Rightarrow> (Inl FormatMismatch, w\<lparr>clock := clock w + dt\<rparr>)
            | Some slides \<Rightarrow>
                (Inr (slidesWithImages e (clock w + dt) slides),
                 w\<lparr>clock := clock w + dt + lookupsTime e (clock w + dt) slides,
                   image_queries := image_queries w @ map imageQuery slides\<rparr>))"
    using generate_after_reply [of e model w theme 5 statusText tx json dt x content] by simp
  show "fst (generateCarouselContent e theme model 5 w) = Inl FormatMismatch"
    unfolding g n by simp
  show "image_queries (snd (generateCarouselContent e theme model 5 w)) = image_queries w"
    unfolding g n by simp
next
  fix err assume "fst (generateCarouselContent e theme model slideCount w) = Inl err"
  then show "image_queries (snd (generateCarouselContent e theme model slideCount w)) = image_queries w"
    by (rule generate_error_no_search)
qed


theorem C4_no_image_search_on_failure_witness:
  "fst (generateCarouselContent env_ai_search ''tema'' ''OpenAI'' 5 (initial_world 0)) = Inl FormatMismatch \<and>
   image_queries (snd (generateCarouselContent env_ai_search ''tema'' ''OpenAI'' 5 (initial_world 0))) = [] \<and>
   image_queries (snd (generateCarouselContent env_ai_search ''tema'' ''OpenAI'' 4 (initial_world 0)))
     = [''one'', ''two'', ''three'', ''four'']"
proof -
  let ?e = env_ai_search
  let ?json = "JObj [(''choices'', JArr [JObj [(''message'', JObj [(''content'', JStr ''completion'')])]])]"
  let ?kvs = "[(''slides'', JArr [slide_json ''a'' ''one'', slide_json ''b'' ''two'',
                              slide_json ''c'' ''three'', slide_json ''d'' ''four''])]"
  let ?xs = "[slide_json ''a'' ''one'', slide_json ''b'' ''two'',
                              slide_json ''c'' ''three'', slide_json ''d'' ''four'']"
  have a: "ai_post ?e (clock (initial_world 0)) ''OpenAI'' ''tema'' 5
        = (JsonResponse True ''OK'' (Inr []) (Inr ?json), 7)"
    by (rule env_ai_search_facts)
  have hyp: "hasApiConfig ?e ''OpenAI'' \<and>
      ai_post ?e (clock (initial_world 0)) ''OpenAI'' ''tema'' 5
        = (JsonResponse True ''OK'' (Inr []) (Inr ?json), 7) \<and>
      completionText ''OpenAI'' ?json = Some (JStr ''completion'') \<and>
      parseContent ?e (JStr ''completion'') = Some four_slides \<and>
      four_slides = JObj ?kvs \<and> map_of ?kvs ''slides'' = Some (JArr ?xs) \<and> length ?xs = 4"
    by (intro conjI)
       (rule env_ai_search_facts(1), rule a, rule env_ai_facts(3), rule env_ai_search_facts(3),
        simp_all add: four_slides_def)
  note c4 = C4_no_image_search_on_failure [of ?e "''OpenAI''" "initial_world 0" "''tema''" 5,
      THEN conjunct1, rule_format, OF hyp]
  have i: "image_queries (initial_world 0) = []" by (simp add: initial_world_def)
  have a4: "ai_post ?e (clock (initial_world 0)) ''OpenAI'' ''tema'' 4
        = (JsonResponse True ''OK'' (Inr []) (Inr ?json), 7)"
    by (rule env_ai_search_facts)
  have ok: "image_queries (snd (generateCarouselContent ?e ''tema'' ''OpenAI'' 4 (initial_world 0)))
     = [''one'', ''two'', ''three'', ''four'']"
    unfolding generate_after_reply [OF env_ai_search_facts(1) a4 env_ai_facts(3) env_ai_search_facts(3)]
      four_slides_parsed
    by (simp add: i)
  from c4 i ok show ?thesis by simp
qed

end
